theory Spec2Isabelle
  imports Main "HOL-Library.AList" "HOL-Library.Multiset"
begin

section \<open>Strings and Python values\<close>

text \<open>
  Python strings are modelled as \<open>string\<close>, one \<open>char\<close> per code point; the model covers
  the code points below 256. Python integers are unbounded and modelled as \<open>int\<close>.
\<close>

datatype pyval = IntVal int | StrVal string

section \<open>Metadata records (gcode\_parser.py, class GCodeMetadata)\<close>

text \<open>
  The dataclass \<open>GCodeMetadata\<close>. The field \<open>setup\<close> of the source is called
  \<open>setup_name\<close> here.
\<close>

record metadata =
  project :: string
  part :: string
  posted_timestamp :: string
  operations :: int
  tool_count :: int
  machine :: string
  setup_name :: string
  program_number :: "string option"

section \<open>Change detection (GCodeParser.compare\_metadata)\<close>

text \<open>
  The warnings are formatted strings that start with a pictograph. Each constructor stands
  for one of the three format strings of the source, with the two interpolated values:
  \<^item> \<open>ToolCountSignificant old new\<close>: warning sign, then
    "Tool count changed significantly: old -> new";
  \<^item> \<open>OperationCountChanged old new\<close>: information sign, then
    "Operation count changed: old -> new";
  \<^item> \<open>MachineChanged old new\<close>: warning sign, then
    "MACHINE CHANGED: old -> new - Verify correct machine!".
\<close>

datatype warning =
  ToolCountSignificant int int
| OperationCountChanged int int
| MachineChanged string string

text \<open>A warning is of high severity when its text starts with the warning sign.\<close>

fun high_severity :: "warning \<Rightarrow> bool" where
  "high_severity (ToolCountSignificant _ _) = True"
| "high_severity (OperationCountChanged _ _) = False"
| "high_severity (MachineChanged _ _) = True"

fun about_tool_count :: "warning \<Rightarrow> bool" where
  "about_tool_count (ToolCountSignificant _ _) = True"
| "about_tool_count (OperationCountChanged _ _) = False"
| "about_tool_count (MachineChanged _ _) = False"

text \<open>The dictionary \<open>{'old': ..., 'new': ...}\<close> stored for a changed field.\<close>

record change_entry =
  old_value :: pyval
  new_value :: pyval

text \<open>
  The dictionary returned by \<open>compare_metadata\<close>: the keys \<open>has_changes\<close>,
  \<open>warnings\<close> and \<open>changes\<close>. The inner dictionary \<open>changes\<close> is an association
  list in insertion order; each key is inserted at most once.
\<close>

record comparison =
  has_changes :: bool
  warnings :: "warning list"
  changes :: "(string \<times> change_entry) list"

definition check_tool_count :: "metadata \<Rightarrow> metadata \<Rightarrow> comparison \<Rightarrow> comparison" where
  "check_tool_count old new c =
     (if tool_count old \<noteq> tool_count new then
        let c1 = c\<lparr>has_changes := True\<rparr>;
            c2 = c1\<lparr>changes := changes c1 @
                   [(''tool_count'', \<lparr>old_value = IntVal (tool_count old),
                                      new_value = IntVal (tool_count new)\<rparr>)]\<rparr>;
            diff = \<bar>tool_count new - tool_count old\<bar>
        in if diff \<ge> 2
           then c2\<lparr>warnings := warnings c2 @
                  [ToolCountSignificant (tool_count old) (tool_count new)]\<rparr>
           else c2
      else c)"

definition check_operations :: "metadata \<Rightarrow> metadata \<Rightarrow> comparison \<Rightarrow> comparison" where
  "check_operations old new c =
     (if operations old \<noteq> operations new then
        let c1 = c\<lparr>has_changes := True\<rparr>;
            c2 = c1\<lparr>changes := changes c1 @
                   [(''operations'', \<lparr>old_value = IntVal (operations old),
                                      new_value = IntVal (operations new)\<rparr>)]\<rparr>
        in c2\<lparr>warnings := warnings c2 @
               [OperationCountChanged (operations old) (operations new)]\<rparr>
      else c)"

definition check_machine :: "metadata \<Rightarrow> metadata \<Rightarrow> comparison \<Rightarrow> comparison" where
  "check_machine old new c =
     (if machine old \<noteq> machine new then
        let c1 = c\<lparr>has_changes := True\<rparr>;
            c2 = c1\<lparr>changes := changes c1 @
                   [(''machine'', \<lparr>old_value = StrVal (machine old),
                                   new_value = StrVal (machine new)\<rparr>)]\<rparr>
        in c2\<lparr>warnings := warnings c2 @ [MachineChanged (machine old) (machine new)]\<rparr>
      else c)"

definition check_setup :: "metadata \<Rightarrow> metadata \<Rightarrow> comparison \<Rightarrow> comparison" where
  "check_setup old new c =
     (if setup_name old \<noteq> setup_name new then
        let c1 = c\<lparr>has_changes := True\<rparr>
        in c1\<lparr>changes := changes c1 @
               [(''setup'', \<lparr>old_value = StrVal (setup_name old),
                             new_value = StrVal (setup_name new)\<rparr>)]\<rparr>
      else c)"

text \<open>The four \<open>if\<close> statements of the source run one after the other on the same dictionary.\<close>

definition compare_metadata :: "metadata \<Rightarrow> metadata \<Rightarrow> comparison" where
  "compare_metadata old new =
     check_setup old new
       (check_machine old new
         (check_operations old new
           (check_tool_count old new
             \<lparr>has_changes = False, warnings = [], changes = []\<rparr>)))"

text \<open>Exchanging the old and the new value of a change entry.\<close>

definition swap_entry :: "change_entry \<Rightarrow> change_entry" where
  "swap_entry e = \<lparr>old_value = new_value e, new_value = old_value e\<rparr>"

section \<open>Exceptions and string helpers\<close>

text \<open>The exceptions that the modelled functions raise.\<close>

datatype error = PermissionError | FileNotFoundError | ValueError

text \<open>\<open>s.startswith(p)\<close> and \<open>s.endswith(p)\<close>.\<close>

definition startswith :: "string \<Rightarrow> string \<Rightarrow> bool" where
  "startswith s p = (take (length p) s = p)"

definition endswith :: "string \<Rightarrow> string \<Rightarrow> bool" where
  "endswith s p = (length p \<le> length s \<and> drop (length s - length p) s = p)"

text \<open>
  \<open>s.split(sep)[0]\<close>: the text before the first occurrence of \<open>sep\<close>, all of \<open>s\<close>
  when there is none.
\<close>

fun before_first :: "string \<Rightarrow> string \<Rightarrow> string" where
  "before_first sep [] = []"
| "before_first sep (c # cs) =
     (if startswith (c # cs) sep then [] else c # before_first sep cs)"

text \<open>\<open>str.rfind\<close> for one character: the index of its last occurrence, or -1.\<close>

definition rfind_char :: "char \<Rightarrow> string \<Rightarrow> int" where
  "rfind_char c s =
     (if c \<in> set s then int (length s) - 1 - int (length (takeWhile (\<lambda>x. x \<noteq> c) (rev s)))
      else - 1)"

text \<open>
  \<open>PurePath.stem\<close> of a file name: the name without its last suffix; a dot at the
  first or at the last position starts no suffix.
\<close>

definition path_stem :: "string \<Rightarrow> string" where
  "path_stem name =
     (let i = rfind_char CHR ''.'' name
      in if 0 < i \<and> i < int (length name) - 1 then take (nat i) name else name)"

section \<open>Name sanitization (FileManager.\_sanitize\_filename)\<close>

text \<open>
  \<open>str.isalnum\<close> on one character, for the code points below 256: the ASCII letters and
  digits, the ordinal indicators, the superscript digits, the micro sign, the vulgar
  fractions and the accented letters. The regular expression class \<open>\w\<close> of \<open>re\<close>
  on a \<open>str\<close> pattern is this set and the underscore.
\<close>

definition py_isalnum :: "char \<Rightarrow> bool" where
  "py_isalnum c =
     (let n = (of_char c :: nat) in
        (48 \<le> n \<and> n \<le> 57) \<or> (65 \<le> n \<and> n \<le> 90) \<or> (97 \<le> n \<and> n \<le> 122) \<or>
        n = 170 \<or> n = 178 \<or> n = 179 \<or> n = 181 \<or> n = 185 \<or> n = 186 \<or>
        (188 \<le> n \<and> n \<le> 190) \<or> (192 \<le> n \<and> n \<le> 214) \<or>
        (216 \<le> n \<and> n \<le> 246) \<or> (248 \<le> n \<and> n \<le> 255))"

definition re_word_char :: "char \<Rightarrow> bool" where
  "re_word_char c = (py_isalnum c \<or> c = CHR ''_'')"

text \<open>
  \<open>str.lower\<close>: the upper-case letters below 256 are A to Z, U+00C0 to U+00D6 and U+00D8
  to U+00DE; the lower-case letter is 32 code points higher, which sets bit 5 (clear in
  all three ranges).
\<close>

definition py_lower_char :: "char \<Rightarrow> char" where
  "py_lower_char c =
     (let n = (of_char c :: nat) in
        if (65 \<le> n \<and> n \<le> 90) \<or> (192 \<le> n \<and> n \<le> 214) \<or> (216 \<le> n \<and> n \<le> 222)
        then (case c of Char b0 b1 b2 b3 b4 b5 b6 b7 \<Rightarrow> Char b0 b1 b2 b3 b4 True b6 b7)
        else c)"

definition py_lower :: "string \<Rightarrow> string" where
  "py_lower s = map py_lower_char s"

text \<open>\<open>re.sub(r'[^\w\-]', '_', name)\<close>: every character matches on its own.\<close>

definition sub_unsafe_chars :: "string \<Rightarrow> string" where
  "sub_unsafe_chars name =
     map (\<lambda>c. if \<not> (re_word_char c \<or> c = CHR ''-'') then CHR ''_'' else c) name"

text \<open>
  \<open>re.sub(r'_+', '_', safe)\<close>: scanning from the left, a match at an underscore takes
  the whole run of underscores (the quantifier is greedy) and is replaced by one.
\<close>

function sub_underscore_runs :: "string \<Rightarrow> string" where
  "sub_underscore_runs [] = []"
| "sub_underscore_runs (c # cs) =
     (if c = CHR ''_''
      then CHR ''_'' # sub_underscore_runs (dropWhile (\<lambda>x. x = CHR ''_'') cs)
      else c # sub_underscore_runs cs)"
  by pat_completeness auto
termination
  by (relation "measure length") (auto simp: less_Suc_eq_le length_dropWhile_le)

text \<open>\<open>str.strip\<close>, with the set of characters to strip as a predicate.\<close>

definition py_strip_chars :: "(char \<Rightarrow> bool) \<Rightarrow> string \<Rightarrow> string" where
  "py_strip_chars P s = rev (dropWhile P (rev (dropWhile P s)))"

definition sanitize_filename :: "string \<Rightarrow> string" where
  "sanitize_filename name =
     (let safe = sub_unsafe_chars name;
          safe = sub_underscore_runs safe;
          safe = py_strip_chars (\<lambda>c. c = CHR ''_'') safe
      in py_lower safe)"

text \<open>
  The sanitization rule in the words of the specification, for comparison with the
  code: replace every character that is not to be kept by an underscore, collapse
  consecutive underscores to one (of two adjacent underscores the first is dropped),
  strip leading and trailing underscores, lower-case the result. The specification keeps
  letters, digits and the underscore: that is \<open>spec_sanitize spec_keeps\<close>.
\<close>

fun squeeze_underscores :: "string \<Rightarrow> string" where
  "squeeze_underscores (a # b # cs) =
     (if a = CHR ''_'' \<and> b = CHR ''_'' then squeeze_underscores (b # cs)
      else a # squeeze_underscores (b # cs))"
| "squeeze_underscores cs = cs"

definition spec_sanitize :: "(char \<Rightarrow> bool) \<Rightarrow> string \<Rightarrow> string" where
  "spec_sanitize keep name =
     map py_lower_char
       (rev (dropWhile (\<lambda>c. c = CHR ''_'')
         (rev (dropWhile (\<lambda>c. c = CHR ''_'')
           (squeeze_underscores (map (\<lambda>c. if keep c then c else CHR ''_'') name))))))"

definition spec_keeps :: "char \<Rightarrow> bool" where
  "spec_keeps c = (py_isalnum c \<or> c = CHR ''_'')"

definition code_keeps :: "char \<Rightarrow> bool" where
  "code_keeps c = (py_isalnum c \<or> c = CHR ''_'' \<or> c = CHR ''-'')"

section \<open>Metadata extraction (GCodeParser.parse\_content)\<close>

text \<open>\<open>str.isspace\<close> on one character, for the code points below 256.\<close>

definition py_isspace :: "char \<Rightarrow> bool" where
  "py_isspace c =
     (let n = (of_char c :: nat) in
        (9 \<le> n \<and> n \<le> 13) \<or> (28 \<le> n \<and> n \<le> 32) \<or> n = 133 \<or> n = 160)"

definition py_strip :: "string \<Rightarrow> string" where
  "py_strip s = py_strip_chars py_isspace s"

text \<open>The decimal digits below 256 (the class \<open>\d\<close>, the digits of \<open>int()\<close>).\<close>

definition is_digit :: "char \<Rightarrow> bool" where
  "is_digit c = (let n = (of_char c :: nat) in 48 \<le> n \<and> n \<le> 57)"

definition digit_value :: "char \<Rightarrow> int" where
  "digit_value c = int (of_char c) - 48"

text \<open>\<open>s.split(sep)\<close> for a separator of one character; the result is never empty.\<close>

fun split_on :: "char \<Rightarrow> string \<Rightarrow> string list" where
  "split_on sep [] = [[]]"
| "split_on sep (c # cs) =
     (if c = sep then [] # split_on sep cs
      else (case split_on sep cs of
              [] \<Rightarrow> [[c]]
            | l # ls \<Rightarrow> (c # l) # ls))"

text \<open>The substring test \<open>sub in s\<close>.\<close>

fun contains :: "string \<Rightarrow> string \<Rightarrow> bool" where
  "contains [] sub = (sub = [])"
| "contains (c # cs) sub = (startswith (c # cs) sub \<or> contains cs sub)"

text \<open>\<open>s.split(sep, 1)[1]\<close> when \<open>sep\<close> occurs in \<open>s\<close>: the text after its first occurrence.\<close>

fun after_first :: "char \<Rightarrow> string \<Rightarrow> string" where
  "after_first sep [] = []"
| "after_first sep (c # cs) = (if c = sep then cs else after_first sep cs)"

text \<open>
  \<open>int(s)\<close> on a string, base 10: white space around the number is ignored, a sign may
  come first, then digits, where single underscores may stand between digits. Anything
  else raises \<open>ValueError\<close> (\<open>None\<close> here), and so does a number of more than
  \<open>max_str_digits\<close> digits (the interpreter's default limit).
\<close>

fun digits_after :: "int \<Rightarrow> string \<Rightarrow> int option" where
  "digits_after acc [] = Some acc"
| "digits_after acc [c] = (if is_digit c then Some (10 * acc + digit_value c) else None)"
| "digits_after acc (c # d # cs) =
     (if is_digit c then digits_after (10 * acc + digit_value c) (d # cs)
      else if c = CHR ''_'' \<and> is_digit d then digits_after (10 * acc + digit_value d) cs
      else None)"

definition max_str_digits :: nat where
  "max_str_digits = 4300"

definition parse_digits :: "string \<Rightarrow> int option" where
  "parse_digits s =
     (case s of [] \<Rightarrow> None
      | c # cs \<Rightarrow>
          if is_digit c \<and> length (filter is_digit s) \<le> max_str_digits
          then digits_after (digit_value c) cs else None)"

definition py_int :: "string \<Rightarrow> int option" where
  "py_int s =
     (case py_strip s of
        [] \<Rightarrow> None
      | c # cs \<Rightarrow>
          if c = CHR ''-'' then map_option uminus (parse_digits cs)
          else if c = CHR ''+'' then parse_digits cs
          else parse_digits (c # cs))"

text \<open>The two sentinels of the metadata block.\<close>

definition METADATA_START :: string where "METADATA_START = ''CHIP-WARDEN-START''"
definition METADATA_END :: string where "METADATA_END = ''CHIP-WARDEN-END''"

text \<open>\<open>re.match(r'O(\d+)', line)\<close>: group 1 is the longest run of digits after the \<open>O\<close>.\<close>

definition match_program_number :: "string \<Rightarrow> string option" where
  "match_program_number line =
     (case line of
        [] \<Rightarrow> None
      | c # cs \<Rightarrow>
          if c = CHR ''O'' \<and> takeWhile is_digit cs \<noteq> [] then Some (takeWhile is_digit cs)
          else None)"

text \<open>
  \<open>self.metadata_pattern.search(line)\<close> with the pattern \<open>\(([^)]+)\)\<close>: the leftmost
  opening parenthesis that is followed by at least one character other than a closing
  parenthesis and then by a closing parenthesis; group 1 is the text between the two.
\<close>

fun search_comment :: "string \<Rightarrow> string option" where
  "search_comment [] = None"
| "search_comment (c # cs) =
     (let body = takeWhile (\<lambda>x. x \<noteq> CHR '')'') cs
      in if c = CHR ''('' \<and> body \<noteq> [] \<and> length body < length cs then Some body
         else search_comment cs)"

text \<open>
  The variables of the scanning loop: the flag \<open>in_metadata\<close>, the dictionary
  \<open>metadata\<close> (here \<open>md_fields\<close>) and \<open>program_number\<close> (here
  \<open>found_program_number\<close>).
\<close>

record scan_state =
  in_metadata :: bool
  md_fields :: "string \<rightharpoonup> string"
  found_program_number :: "string option"

text \<open>\<open>key.strip().lower().replace('-', '_')\<close>.\<close>

definition field_key :: "string \<Rightarrow> string" where
  "field_key k = map (\<lambda>c. if c = CHR ''-'' then CHR ''_'' else c) (py_lower (py_strip k))"

definition parse_metadata_line :: "string \<Rightarrow> scan_state \<Rightarrow> scan_state" where
  "parse_metadata_line line st =
     (case search_comment line of
        None \<Rightarrow> st
      | Some comment \<Rightarrow>
          if CHR '':'' \<in> set comment then
            let key = field_key (before_first '':'' comment);
                val = py_strip (after_first CHR '':'' comment)
            in st\<lparr>md_fields := (md_fields st)(key \<mapsto> val)\<rparr>
          else st)"

text \<open>
  The loop over the lines. A line with the start sentinel sets the flag and is skipped
  (\<open>continue\<close>); a line with the end sentinel ends the loop (\<open>break\<close>).
\<close>

fun scan_lines :: "string list \<Rightarrow> scan_state \<Rightarrow> scan_state" where
  "scan_lines [] st = st"
| "scan_lines (raw # rest) st =
     (let line = py_strip raw;
          st1 = (if startswith line ''O'' \<and> found_program_number st = None
                 then (case match_program_number line of
                         Some n \<Rightarrow> st\<lparr>found_program_number := Some n\<rparr>
                       | None \<Rightarrow> st)
                 else st)
      in if contains line METADATA_START then scan_lines rest (st1\<lparr>in_metadata := True\<rparr>)
         else if contains line METADATA_END then st1
         else if in_metadata st1 then scan_lines rest (parse_metadata_line line st1)
         else scan_lines rest st1)"

definition scan_content :: "string \<Rightarrow> scan_state" where
  "scan_content content =
     scan_lines (split_on CHR 0x0A content)
       \<lparr>in_metadata = False, md_fields = Map.empty, found_program_number = None\<rparr>"

text \<open>\<open>metadata.get(k, default)\<close>, and \<open>int(metadata.get(k, 0))\<close>.\<close>

definition get_or :: "(string \<rightharpoonup> string) \<Rightarrow> string \<Rightarrow> string \<Rightarrow> string" where
  "get_or m k dflt = (case m k of None \<Rightarrow> dflt | Some v \<Rightarrow> v)"

definition int_or_zero :: "(string \<rightharpoonup> string) \<Rightarrow> string \<Rightarrow> int option" where
  "int_or_zero m k = (case m k of None \<Rightarrow> Some 0 | Some v \<Rightarrow> py_int v)"

text \<open>
  After the loop: \<open>None\<close> unless the three required fields are present, then the
  record; a \<open>ValueError\<close> of \<open>int\<close> is caught and gives \<open>None\<close> too.
\<close>

definition parse_content :: "string \<Rightarrow> metadata option" where
  "parse_content content =
     (let st = scan_content content; m = md_fields st
      in if \<not> (\<forall>field \<in> set [''project'', ''part'', ''posted'']. m field \<noteq> None) then None
         else
           (case int_or_zero m ''operations'' of
              None \<Rightarrow> None
            | Some ops \<Rightarrow>
                (case int_or_zero m ''tool_count'' of
                   None \<Rightarrow> None
                 | Some tools \<Rightarrow>
                     Some \<lparr>project = get_or m ''project'' ''unknown'',
                           part = get_or m ''part'' ''unknown'',
                           posted_timestamp = get_or m ''posted'' '''',
                           operations = ops,
                           tool_count = tools,
                           machine = get_or m ''machine'' ''unknown'',
                           setup_name = get_or m ''setup'' ''unknown'',
                           program_number = found_program_number st\<rparr>)))"

text \<open>The characters that can occur in a string accepted by \<open>int()\<close>.\<close>

definition numeric_char :: "char \<Rightarrow> bool" where
  "numeric_char c =
     (is_digit c \<or> c = CHR ''_'' \<or> c = CHR ''+'' \<or> c = CHR ''-'' \<or> py_isspace c)"


section \<open>Version store (FileManager.archive\_gcode and its helpers)\<close>

text \<open>\<open>str(n)\<close> for an integer: its decimal digits, with a minus sign when negative.\<close>

definition digit_char :: "nat \<Rightarrow> char" where
  "digit_char d = ''0123456789'' ! d"

function str_nat :: "nat \<Rightarrow> string" where
  "str_nat n = (if n < 10 then [digit_char n] else str_nat (n div 10) @ [digit_char (n mod 10)])"
  by pat_completeness auto
termination
  by (relation "measure id") auto

declare str_nat.simps [simp del]

definition str_int :: "int \<Rightarrow> string" where
  "str_int i = (if i < 0 then CHR ''-'' # str_nat (nat (- i)) else str_nat (nat i))"

text \<open>
  A file of the archive has a content and a modification time. A directory is the list of
  its files by name. The archive maps the path of a directory below the archive root to
  that directory; a directory that was never written to is empty, so \<open>mkdir\<close> with
  \<open>exist_ok\<close> changes nothing.
\<close>

record stored_file =
  file_content :: string
  file_mtime :: int

type_synonym directory = "(string \<times> stored_file) list"
type_synonym path = "string list"
type_synonym archive = "path \<Rightarrow> directory"

text \<open>
  \<open>self.parts_archive / safe_name\<close>, then \<open>project_dir / safe_part\<close>: joining an empty
  name to a path gives the path itself.
\<close>

definition get_project_dir :: "string \<Rightarrow> path" where
  "get_project_dir project_name = filter (\<lambda>c. c \<noteq> []) [sanitize_filename project_name]"

definition get_part_dir :: "string \<Rightarrow> string \<Rightarrow> path" where
  "get_part_dir project_name part_name =
     get_project_dir project_name @ filter (\<lambda>c. c \<noteq> []) [sanitize_filename part_name]"

text \<open>\<open>part_dir.glob("*.nc")\<close>, sorted by modification time, newest first.\<close>

definition glob_nc_files :: "directory \<Rightarrow> (string \<times> stored_file) list" where
  "glob_nc_files d = filter (\<lambda>(name, f). endswith name ''.nc'') d"

definition get_existing_versions ::
    "archive \<Rightarrow> string \<Rightarrow> string \<Rightarrow> (string \<times> stored_file) list" where
  "get_existing_versions a project_name part_name =
     sort_key (\<lambda>(name, f). - file_mtime f)
       (glob_nc_files (a (get_part_dir project_name part_name)))"

definition get_next_version_number :: "archive \<Rightarrow> string \<Rightarrow> string \<Rightarrow> nat" where
  "get_next_version_number a project_name part_name =
     length (get_existing_versions a project_name part_name) + 1"

text \<open>The file name \<open>f"{safe_part}_v{version}_{metadata.posted_timestamp}.nc"\<close>.\<close>

definition version_file_name :: "metadata \<Rightarrow> nat \<Rightarrow> string" where
  "version_file_name md version =
     sanitize_filename (part md) @ ''_v'' @ str_nat version @ ''_'' @ posted_timestamp md @ ''.nc''"

text \<open>
  \<open>shutil.copy2(source_file, dest_path)\<close> into the part directory: the copy has the
  content and the modification time of the source and replaces a file of the same name.
  A name with a NUL character is refused; a name with a slash denotes a file in a
  subdirectory, and a part directory has none. Limits of the file system on the length of
  a name are not modelled.
\<close>

definition copy2 :: "stored_file \<Rightarrow> string \<Rightarrow> directory \<Rightarrow> error + directory" where
  "copy2 src name d =
     (if CHR 0x00 \<in> set name then Inl ValueError
      else if CHR ''/'' \<in> set name then Inl FileNotFoundError
      else Inr (AList.update name src d))"

text \<open>
  Reading a file in text mode translates \<open>\r\n\<close> and \<open>\r\<close> to \<open>\n\<close>;
  \<open>readlines\<close> cuts the text after every \<open>\n\<close>.
\<close>

fun universal_newlines :: "string \<Rightarrow> string" where
  "universal_newlines [] = []"
| "universal_newlines [c] = (if c = CHR 0x0D then [CHR 0x0A] else [c])"
| "universal_newlines (c # d # cs) =
     (if c = CHR 0x0D \<and> d = CHR 0x0A then CHR 0x0A # universal_newlines cs
      else if c = CHR 0x0D then CHR 0x0A # universal_newlines (d # cs)
      else c # universal_newlines (d # cs))"

fun lines_from :: "string \<Rightarrow> string \<Rightarrow> string list" where
  "lines_from cur [] = (if cur = [] then [] else [cur])"
| "lines_from cur (c # cs) =
     (if c = CHR 0x0A then (cur @ [c]) # lines_from [] cs else lines_from (cur @ [c]) cs)"

definition readlines :: "string \<Rightarrow> string list" where
  "readlines s = lines_from [] (universal_newlines s)"

text \<open>
  The header and the entry that \<open>_update_changelog\<close> writes. The last line of an entry
  shows \<open>metadata.posted_datetime or metadata.posted_timestamp\<close>; the property
  \<open>posted_datetime\<close> parses the time stamp with the library function \<open>strptime\<close>,
  and the result of that (as text, \<open>None\<close> when the time stamp does not parse) is the
  parameter \<open>posted_datetime\<close> of the model.
\<close>

definition changelog_header :: "metadata \<Rightarrow> string" where
  "changelog_header md =
     ''# '' @ part md @ '' - Change Log'' @ [CHR 0x0A, CHR 0x0A] @
     ''Project: '' @ project md @ [CHR 0x0A, CHR 0x0A]"

definition changelog_entry :: "(string \<Rightarrow> string option) \<Rightarrow> metadata \<Rightarrow> nat \<Rightarrow> string" where
  "changelog_entry posted_datetime md version =
     ''## Version '' @ str_nat version @ '' - '' @ posted_timestamp md @ [CHR 0x0A, CHR 0x0A] @
     ''- **Setup:** '' @ setup_name md @ [CHR 0x0A] @
     ''- **Machine:** '' @ machine md @ [CHR 0x0A] @
     ''- **Operations:** '' @ str_int (operations md) @ [CHR 0x0A] @
     ''- **Tools:** '' @ str_int (tool_count md) @ [CHR 0x0A] @
     ''- **Posted:** '' @
       (case posted_datetime (posted_timestamp md) of
          Some t \<Rightarrow> t | None \<Rightarrow> posted_timestamp md) @ [CHR 0x0A, CHR 0x0A]"

text \<open>
  \<open>_update_changelog\<close>: the header only when there is no changelog yet; of an existing
  changelog whose first line starts with \<open>#\<close> the first three lines are skipped. The
  file is written at time \<open>now\<close>.
\<close>

definition update_changelog ::
    "(string \<Rightarrow> string option) \<Rightarrow> int \<Rightarrow> directory \<Rightarrow> metadata \<Rightarrow> nat \<Rightarrow> directory" where
  "update_changelog posted_datetime now part_dir md version =
     (let header = (case map_of part_dir ''CHANGELOG.md'' of
                      None \<Rightarrow> changelog_header md
                    | Some _ \<Rightarrow> []);
          existing_content =
            (case map_of part_dir ''CHANGELOG.md'' of
               None \<Rightarrow> []
             | Some f \<Rightarrow>
                 (let lines = readlines (file_content f)
                  in if lines \<noteq> [] \<and> startswith (hd lines) ''#''
                     then concat (drop 3 lines)
                     else concat lines));
          entry = changelog_entry posted_datetime md version
      in AList.update ''CHANGELOG.md''
           \<lparr>file_content = header @ entry @ existing_content, file_mtime = now\<rparr> part_dir)"

text \<open>
  \<open>archive_gcode\<close>, for a source file that exists. The commit to version control comes
  last, changes no file of the part directory and its failure is caught; it is left out.
\<close>

definition archive_gcode ::
    "(string \<Rightarrow> string option) \<Rightarrow> int \<Rightarrow> archive \<Rightarrow> stored_file \<Rightarrow> metadata
      \<Rightarrow> error + (archive \<times> (path \<times> string) \<times> nat)" where
  "archive_gcode posted_datetime now a source_file md =
     (let part_dir = get_part_dir (project md) (part md);
          version = get_next_version_number a (project md) (part md);
          filename = version_file_name md version
      in case copy2 source_file filename (a part_dir) of
           Inl e \<Rightarrow> Inl e
         | Inr d \<Rightarrow>
             Inr (a(part_dir := update_changelog posted_datetime now d md version),
                  (part_dir, filename), version))"

text \<open>Sequential archival calls; the result lists the version numbers they return.\<close>

fun archive_all ::
    "(string \<Rightarrow> string option) \<Rightarrow> archive \<Rightarrow> (int \<times> stored_file \<times> metadata) list
      \<Rightarrow> error + (archive \<times> nat list)" where
  "archive_all posted_datetime a [] = Inr (a, [])"
| "archive_all posted_datetime a ((now, src, md) # rest) =
     (case archive_gcode posted_datetime now a src md of
        Inl e \<Rightarrow> Inl e
      | Inr (a', dest, version) \<Rightarrow>
          (case archive_all posted_datetime a' rest of
             Inl e \<Rightarrow> Inl e
           | Inr (a'', versions) \<Rightarrow> Inr (a'', version # versions)))"

text \<open>The content of the changelog of a directory (empty when there is none).\<close>

definition changelog_of :: "archive \<Rightarrow> path \<Rightarrow> string" where
  "changelog_of a p = (case map_of (a p) ''CHANGELOG.md'' of None \<Rightarrow> [] | Some f \<Rightarrow> file_content f)"

text \<open>
  A time stamp that gives a file name the file system accepts: no NUL and no slash.
\<close>

definition valid_timestamp :: "metadata \<Rightarrow> bool" where
  "valid_timestamp md =
     (CHR 0x00 \<notin> set (posted_timestamp md) \<and> CHR ''/'' \<notin> set (posted_timestamp md))"

text \<open>The entry headings of a changelog: its lines that start with \<open>## Version\<close>.\<close>

definition entry_headings :: "string \<Rightarrow> string list" where
  "entry_headings changelog = filter (\<lambda>l. startswith l ''## Version '') (readlines changelog)"

text \<open>The number that a string of decimal digits denotes.\<close>

definition nat_of_digits :: "string \<Rightarrow> nat" where
  "nat_of_digits s = foldl (\<lambda>a c. 10 * a + (of_char c - 48)) 0 s"


section \<open>Retention sweep of the publish directory (FileManager.cleanup\_old\_ftp\_files)\<close>

text \<open>
  A file of the publish directory: its name, its modification time (\<open>st_mtime\<close>, any
  linearly ordered time stamp) and whether the operating system refuses to unlink it
  (permission denied). The directory is the list of its files in listing order; the names
  of a directory are distinct.
\<close>

record published =
  file_name :: string
  st_mtime :: int
  unlink_denied :: bool

type_synonym ftp_dir = "published list"

text \<open>\<open>self.ftp_dir.glob("*.nc")\<close>: the files whose name ends in \<open>.nc\<close>.\<close>

definition glob_nc :: "ftp_dir \<Rightarrow> published list" where
  "glob_nc d = filter (\<lambda>f. endswith (file_name f) ''.nc'') d"

definition part_key :: "published \<Rightarrow> string" where
  "part_key nc_file = before_first ''_v'' (path_stem (file_name nc_file))"

text \<open>
  \<open>files_by_part[part_key].append(nc_file)\<close> on a \<open>defaultdict(list)\<close>; the
  dictionary keeps its keys in insertion order.
\<close>

fun append_to_group :: "string \<Rightarrow> published \<Rightarrow> (string \<times> published list) list
    \<Rightarrow> (string \<times> published list) list" where
  "append_to_group k f [] = [(k, [f])]"
| "append_to_group k f ((k', fs) # gs) =
     (if k = k' then (k', fs @ [f]) # gs else (k', fs) # append_to_group k f gs)"

definition group_by_part :: "published list \<Rightarrow> (string \<times> published list) list" where
  "group_by_part files = foldl (\<lambda>g f. append_to_group (part_key f) f g) [] files"

text \<open>
  \<open>files.sort(key=lambda x: x.stat().st_mtime, reverse=True)\<close>: a stable sort, descending;
  files with equal times keep their order.
\<close>

definition sort_newest_first :: "published list \<Rightarrow> published list" where
  "sort_newest_first files = sort_key (\<lambda>x. - st_mtime x) files"

text \<open>The slice \<open>xs[k:]\<close>; a negative \<open>k\<close> counts from the end.\<close>

definition slice_from :: "'a list \<Rightarrow> int \<Rightarrow> 'a list" where
  "slice_from xs k = (if k \<ge> 0 then drop (nat k) xs else drop (nat (int (length xs) + k)) xs)"

text \<open>\<open>old_file.unlink()\<close> raises when the file is gone or may not be removed.\<close>

definition unlink :: "published \<Rightarrow> ftp_dir \<Rightarrow> error + ftp_dir" where
  "unlink f d =
     (case find (\<lambda>g. file_name g = file_name f) d of
        None \<Rightarrow> Inl FileNotFoundError
      | Some g \<Rightarrow> if unlink_denied g then Inl PermissionError
                  else Inr (filter (\<lambda>g. file_name g \<noteq> file_name f) d))"

text \<open>
  The inner loop \<open>for old_file in files[keep_count:]\<close>. No exception is caught in
  \<open>cleanup_old_ftp_files\<close>: a failing \<open>unlink\<close> ends the call, with the directory as
  it is at that moment.
\<close>

fun remove_old_files :: "published list \<Rightarrow> ftp_dir \<Rightarrow> nat \<Rightarrow> ftp_dir \<times> (error + nat)" where
  "remove_old_files [] d removed_count = (d, Inr removed_count)"
| "remove_old_files (old_file # rest) d removed_count =
     (case unlink old_file d of
        Inl e \<Rightarrow> (d, Inl e)
      | Inr d' \<Rightarrow> remove_old_files rest d' (removed_count + 1))"

text \<open>The outer loop \<open>for part, files in files_by_part.items()\<close>.\<close>

fun cleanup_parts :: "(string \<times> published list) list \<Rightarrow> int \<Rightarrow> ftp_dir \<Rightarrow> nat
    \<Rightarrow> ftp_dir \<times> (error + nat)" where
  "cleanup_parts [] keep_count d removed_count = (d, Inr removed_count)"
| "cleanup_parts ((p, files) # groups) keep_count d removed_count =
     (case remove_old_files (slice_from (sort_newest_first files) keep_count) d removed_count of
        (d', Inl e) \<Rightarrow> (d', Inl e)
      | (d', Inr n) \<Rightarrow> cleanup_parts groups keep_count d' n)"

definition cleanup_old_ftp_files :: "ftp_dir \<Rightarrow> int \<Rightarrow> ftp_dir \<times> (error + nat)" where
  "cleanup_old_ftp_files d keep_count =
     cleanup_parts (group_by_part (glob_nc d)) keep_count d 0"



text \<open>
  The stale files of a directory, in the order in which the two loops reach them: for
  each part key in order of first appearance, the files after the first \<open>keep_count\<close>
  of the group sorted newest first.
\<close>

definition sweep_victims :: "ftp_dir \<Rightarrow> int \<Rightarrow> published list" where
  "sweep_victims d keep_count =
     concat (map (\<lambda>(p, files). slice_from (sort_newest_first files) keep_count)
                 (group_by_part (glob_nc d)))"

definition group_victims :: "(string \<times> published list) list \<Rightarrow> int \<Rightarrow> published list" where
  "group_victims groups keep_count =
     concat (map (\<lambda>(p, files). slice_from (sort_newest_first files) keep_count) groups)"


section \<open>Example inputs\<close>

definition nl :: string where "nl = [CHR 0x0A]"

text \<open>
  The header of the end-to-end scenario, with the line of the part and the line of the
  tool count as parameters.
\<close>

definition gcode_header :: "string \<Rightarrow> string \<Rightarrow> string" where
  "gcode_header part_line tool_line =
     nl @ ''%'' @ nl @ ''O1001 (HYDRAULIC MANIFOLD)'' @ nl @
     ''(CHIP-WARDEN-START)'' @ nl @
     ''(PROJECT: HYDRAULIC MANIFOLD)'' @ nl @
     part_line @ nl @
     ''(POSTED: 2025-10-30-1445)'' @ nl @
     ''(OPERATIONS: 3)'' @ nl @
     tool_line @ nl @
     ''(MACHINE: PUMA)'' @ nl @
     ''(SETUP: OP1-ROUGH-FACE)'' @ nl @
     ''(CHIP-WARDEN-END)'' @ nl @ nl @ ''G28 U0 W0'' @ nl"


text \<open>
  Three archival calls for the key of the test in \<open>file_manager.py\<close>, on an empty
  archive. \<open>example_posted_datetime\<close> is what \<open>str(metadata.posted_datetime)\<close> is for
  the three time stamps.
\<close>

definition example_posted_datetime :: "string \<Rightarrow> string option" where
  "example_posted_datetime ts =
     (if ts = ''2025-10-30-1445'' then Some ''2025-10-30 14:45:00''
      else if ts = ''2025-10-31-0900'' then Some ''2025-10-31 09:00:00''
      else if ts = ''2025-11-01-0900'' then Some ''2025-11-01 09:00:00''
      else None)"

definition example_metadata :: "string \<Rightarrow> metadata" where
  "example_metadata ts =
     \<lparr>project = ''test-project'', part = ''1001'', posted_timestamp = ts,
      operations = 3, tool_count = 5, machine = ''PUMA'', setup_name = ''OP1-TEST'',
      program_number = None\<rparr>"

definition example_source :: stored_file where
  "example_source = \<lparr>file_content = ''G28 U0 W0'' @ nl, file_mtime = 50\<rparr>"

definition three_archivals :: "(int \<times> stored_file \<times> metadata) list" where
  "three_archivals =
     [(100, example_source, example_metadata ''2025-10-30-1445''),
      (200, example_source, example_metadata ''2025-10-31-0900''),
      (300, example_source, example_metadata ''2025-11-01-0900'')]"

definition empty_archive :: archive where
  "empty_archive = (\<lambda>p. [])"

definition changelog_after :: "(int \<times> stored_file \<times> metadata) list \<Rightarrow> string option" where
  "changelog_after calls =
     (case archive_all example_posted_datetime empty_archive calls of
        Inl e \<Rightarrow> None
      | Inr (a, versions) \<Rightarrow> Some (changelog_of a [''test-project'', ''1001'']))"


section \<open>Example publish directories\<close>

definition nc_file :: "string \<Rightarrow> int \<Rightarrow> published" where
  "nc_file n t = \<lparr>file_name = n, st_mtime = t, unlink_denied = False\<rparr>"

definition locked_file :: "string \<Rightarrow> int \<Rightarrow> published" where
  "locked_file n t = \<lparr>file_name = n, st_mtime = t, unlink_denied = True\<rparr>"

text \<open>Five versions of part 1001 in no particular order, one file of another part, one other file.\<close>

definition publish_dir_five :: ftp_dir where
  "publish_dir_five =
     [nc_file ''1001_v3_2025-11-01-0900.nc'' 30,
      nc_file ''1001_v1_2025-10-30-1445.nc'' 10,
      nc_file ''2002_v1_2025-10-30-1500.nc'' 12,
      nc_file ''1001_v5_2025-11-03-0900.nc'' 50,
      nc_file ''README.txt'' 1,
      nc_file ''1001_v2_2025-10-31-0900.nc'' 20,
      nc_file ''1001_v4_2025-11-02-0900.nc'' 40]"

definition publish_dir_five_swept :: ftp_dir where
  "publish_dir_five_swept =
     [nc_file ''2002_v1_2025-10-30-1500.nc'' 12,
      nc_file ''1001_v5_2025-11-03-0900.nc'' 50,
      nc_file ''README.txt'' 1,
      nc_file ''1001_v4_2025-11-02-0900.nc'' 40]"

text \<open>Three versions of one part; the second newest may not be unlinked.\<close>

definition publish_dir_locked :: ftp_dir where
  "publish_dir_locked =
     [nc_file ''1001_v1_2025-10-30-1445.nc'' 10,
      locked_file ''1001_v2_2025-10-31-0900.nc'' 20,
      nc_file ''1001_v3_2025-11-01-0900.nc'' 30]"

text \<open>Four versions of one part; the oldest but one may not be unlinked.\<close>

definition publish_dir_locked_four :: ftp_dir where
  "publish_dir_locked_four =
     [nc_file ''1001_v1_2025-10-30-1445.nc'' 10,
      locked_file ''1001_v2_2025-10-31-0900.nc'' 20,
      nc_file ''1001_v3_2025-11-01-0900.nc'' 30,
      nc_file ''1001_v4_2025-11-02-0900.nc'' 40]"

section \<open>Helper lemmas\<close>

lemmas compare_defs =
  compare_metadata_def check_tool_count_def check_operations_def check_machine_def
  check_setup_def

lemma sub_underscore_runs_squeeze: "sub_underscore_runs s = squeeze_underscores s"
proof (induction s rule: squeeze_underscores.induct)
  case (1 a b cs)
  then show ?case by (cases "b = CHR ''_''") auto
qed auto

lemma sub_unsafe_chars_keep:
  "sub_unsafe_chars name = map (\<lambda>c. if code_keeps c then c else CHR ''_'') name"
  by (induction name) (auto simp: sub_unsafe_chars_def re_word_char_def code_keeps_def)

lemmas sanitize_defs =
  sanitize_filename_def sub_unsafe_chars_def re_word_char_def py_isalnum_def
  py_strip_chars_def py_lower_def py_lower_char_def spec_sanitize_def spec_keeps_def
  code_keeps_def

lemmas sweep_defs =
  cleanup_old_ftp_files_def glob_nc_def endswith_def group_by_part_def part_key_def
  path_stem_def rfind_char_def startswith_def sort_newest_first_def slice_from_def unlink_def
  nc_file_def locked_file_def

lemma find_distinct_names:
  "distinct (map file_name d) \<Longrightarrow> f \<in> set d \<Longrightarrow> find (\<lambda>g. file_name g = file_name f) d = Some f"
  by (induction d) (auto simp: rev_image_eqI)

lemma filter_name_eq:
  "distinct (map file_name d) \<Longrightarrow> f \<in> set d \<Longrightarrow>
   filter (\<lambda>g. file_name g \<noteq> file_name f) d = filter (\<lambda>g. g \<noteq> f) d"
  by (rule filter_cong) (auto simp: distinct_map inj_on_def)

lemma unlink_present:
  assumes "distinct (map file_name d)" "f \<in> set d"
  shows "unlink f d = (if unlink_denied f then Inl PermissionError
                       else Inr (filter (\<lambda>g. g \<noteq> f) d))"
  using assms by (simp add: unlink_def find_distinct_names filter_name_eq)

lemma distinct_names_filter:
  "distinct (map file_name d) \<Longrightarrow> distinct (map file_name (filter P d))"
  by (simp add: distinct_map_filter)

lemma remove_old_files_result:
  assumes "distinct (map file_name d)" "distinct vs" "set vs \<subseteq> set d"
  shows "remove_old_files vs d n =
     (if \<forall>v \<in> set vs. \<not> unlink_denied v
      then (filter (\<lambda>g. g \<notin> set vs) d, Inr (n + length vs))
      else (filter (\<lambda>g. g \<notin> set (takeWhile (\<lambda>v. \<not> unlink_denied v) vs)) d,
            Inl PermissionError))"
  using assms
proof (induction vs arbitrary: d n)
  case Nil
  then show ?case by simp
next
  case (Cons v vs)
  show ?case
  proof (cases "unlink_denied v")
    case True
    with Cons.prems show ?thesis by (simp add: unlink_present)
  next
    case False
    let ?d = "filter (\<lambda>g. g \<noteq> v) d"
    have u: "unlink v d = Inr ?d"
      using Cons.prems False by (simp add: unlink_present)
    have 1: "distinct (map file_name ?d)"
      using Cons.prems(1) by (rule distinct_names_filter)
    have 2: "distinct vs" "set vs \<subseteq> set ?d"
      using Cons.prems by auto
    have f: "filter (\<lambda>g. g \<notin> set xs) ?d = filter (\<lambda>g. g \<notin> set (v # xs)) d" for xs
      by (induction d) auto
    show ?thesis
      using False u Cons.IH [OF 1 2, of "n + 1"] f [of vs]
        f [of "takeWhile (\<lambda>v. \<not> unlink_denied v) vs"]
      by simp
  qed
qed

lemma group_victims_simps [simp]:
  "group_victims [] k = []"
  "group_victims ((p, fs) # gs) k = slice_from (sort_newest_first fs) k @ group_victims gs k"
  by (simp_all add: group_victims_def)

lemma filter_filter_notin:
  "filter (\<lambda>g. g \<notin> set ys) (filter (\<lambda>g. g \<notin> set xs) d) = filter (\<lambda>g. g \<notin> set (xs @ ys)) d"
  by (induction d) auto

lemma cleanup_parts_result:
  assumes "distinct (map file_name d)" "distinct (group_victims gs k)"
    "set (group_victims gs k) \<subseteq> set d"
  shows "cleanup_parts gs k d n =
     (if \<forall>v \<in> set (group_victims gs k). \<not> unlink_denied v
      then (filter (\<lambda>g. g \<notin> set (group_victims gs k)) d, Inr (n + length (group_victims gs k)))
      else (filter (\<lambda>g. g \<notin> set (takeWhile (\<lambda>v. \<not> unlink_denied v) (group_victims gs k))) d,
            Inl PermissionError))"
  using assms
proof (induction gs arbitrary: d n)
  case Nil
  then show ?case by simp
next
  case (Cons g gs)
  obtain p fs where g: "g = (p, fs)" by (cases g)
  let ?vs = "slice_from (sort_newest_first fs) k"
  have vs: "distinct ?vs" "set ?vs \<subseteq> set d"
    and rest: "distinct (group_victims gs k)" "set (group_victims gs k) \<subseteq> set d"
    and disj: "set ?vs \<inter> set (group_victims gs k) = {}"
    using Cons.prems by (auto simp: g)
  note r = remove_old_files_result [OF Cons.prems(1) vs, of n]
  show ?case
  proof (cases "\<forall>v \<in> set ?vs. \<not> unlink_denied v")
    case False
    then have "takeWhile (\<lambda>v. \<not> unlink_denied v) (?vs @ group_victims gs k) =
               takeWhile (\<lambda>v. \<not> unlink_denied v) ?vs"
      by (auto intro: takeWhile_append1)
    with False r show ?thesis by (auto simp: g)
  next
    case True
    let ?d = "filter (\<lambda>g. g \<notin> set ?vs) d"
    have 1: "distinct (map file_name ?d)"
      using Cons.prems(1) by (rule distinct_names_filter)
    have 2: "set (group_victims gs k) \<subseteq> set ?d"
      using rest disj by auto
    have tw: "takeWhile (\<lambda>v. \<not> unlink_denied v) (?vs @ group_victims gs k) =
              ?vs @ takeWhile (\<lambda>v. \<not> unlink_denied v) (group_victims gs k)"
      using True by (simp add: takeWhile_append2)
    show ?thesis
      using True r Cons.IH [OF 1 rest(1) 2, of "n + length ?vs"] tw
      by (auto simp: g filter_filter_notin add.assoc)
  qed
qed


lemma append_to_group_keys:
  "set (map fst (append_to_group k f gs)) = insert k (set (map fst gs))"
  by (induction k f gs rule: append_to_group.induct) (simp_all add: insert_commute)

lemma append_to_group_distinct:
  "distinct (map fst gs) \<Longrightarrow> distinct (map fst (append_to_group k f gs))"
  by (induction gs) (auto simp: append_to_group_keys simp del: set_map)

lemma append_to_group_lookup:
  "map_of (append_to_group k f gs) k' =
     (if k' = k then Some ((case map_of gs k of None \<Rightarrow> [] | Some fs \<Rightarrow> fs) @ [f])
      else map_of gs k')"
  by (induction gs) auto

lemma foldl_groups_distinct:
  "distinct (map fst gs) \<Longrightarrow>
   distinct (map fst (foldl (\<lambda>g f. append_to_group (part_key f) f g) gs files))"
  by (induction files arbitrary: gs) (auto simp: append_to_group_distinct)

lemma foldl_groups_lookup:
  "map_of (foldl (\<lambda>g f. append_to_group (part_key f) f g) gs files) K =
     (if map_of gs K = None \<and> filter (\<lambda>f. part_key f = K) files = [] then None
      else Some ((case map_of gs K of None \<Rightarrow> [] | Some fs \<Rightarrow> fs) @
                 filter (\<lambda>f. part_key f = K) files))"
  by (induction files arbitrary: gs) (auto simp: append_to_group_lookup split: option.splits)

lemma group_by_part_distinct: "distinct (map fst (group_by_part files))"
  by (simp add: group_by_part_def foldl_groups_distinct)

lemma group_by_part_member:
  "(K, fs) \<in> set (group_by_part files) \<longleftrightarrow>
     fs = filter (\<lambda>f. part_key f = K) files \<and> fs \<noteq> []"
proof -
  have "(K, fs) \<in> set (group_by_part files) \<longleftrightarrow> map_of (group_by_part files) K = Some fs"
    using group_by_part_distinct [of files] by simp
  then show ?thesis
    by (auto simp: group_by_part_def foldl_groups_lookup)
qed

lemma mset_append_to_group:
  "mset (concat (map snd (append_to_group k f gs))) = add_mset f (mset (concat (map snd gs)))"
  by (induction gs) auto

lemma mset_foldl_groups:
  "mset (concat (map snd (foldl (\<lambda>g f. append_to_group (part_key f) f g) gs files))) =
   mset (concat (map snd gs)) + mset files"
  by (induction files arbitrary: gs) (auto simp: mset_append_to_group)

lemma mset_drop_subset: "mset (drop n xs) \<subseteq># mset xs"
proof -
  have "mset xs = mset (take n xs) + mset (drop n xs)"
    by (metis append_take_drop_id mset_append)
  then show ?thesis by simp
qed

lemma mset_slice_subset: "mset (slice_from (sort_newest_first fs) k) \<subseteq># mset fs"
proof -
  have "mset (slice_from (sort_newest_first fs) k) \<subseteq># mset (sort_newest_first fs)"
    by (simp add: slice_from_def mset_drop_subset)
  then show ?thesis by (simp add: sort_newest_first_def)
qed

lemma mset_group_victims: "mset (group_victims gs k) \<subseteq># mset (concat (map snd gs))"
proof (induction gs)
  case Nil
  then show ?case by simp
next
  case (Cons g gs)
  obtain p fs where g: "g = (p, fs)" by (cases g)
  show ?case using Cons mset_slice_subset [of fs k]
    by (simp add: g subset_mset.add_mono)
qed

lemma sweep_victims_subset: "mset (sweep_victims d k) \<subseteq># mset (glob_nc d)"
  using mset_group_victims [of "group_by_part (glob_nc d)" k]
  by (simp add: sweep_victims_def group_victims_def group_by_part_def mset_foldl_groups)

lemma distinct_mset_subset:
  assumes "mset xs \<subseteq># mset ys" "distinct ys"
  shows "distinct xs"
proof -
  have "count (mset xs) a \<le> 1" for a
    using mset_subset_eq_count [OF assms(1), of a] assms(2)
    by (metis distinct_count_atmost_1 le_trans order_refl zero_le_one)
  then show ?thesis by (simp add: distinct_count_atmost_1) (metis le_antisym not_less_eq_eq One_nat_def count_mset_0_iff le_zero_eq nat_le_linear)
qed

lemma glob_nc_subset: "set (glob_nc d) \<subseteq> set d"
  by (auto simp: glob_nc_def)

lemma distinct_entries: "distinct (map file_name d) \<Longrightarrow> distinct d"
  by (simp add: distinct_map)

lemma sweep_victims_distinct:
  "distinct (map file_name d) \<Longrightarrow> distinct (sweep_victims d k)"
  by (rule distinct_mset_subset [OF sweep_victims_subset])
     (simp add: glob_nc_def distinct_entries)

lemma sweep_victims_in_dir: "set (sweep_victims d k) \<subseteq> set d"
  using set_mset_mono [OF sweep_victims_subset [of d k]] glob_nc_subset [of d] by auto

lemma cleanup_old_ftp_files_result:
  assumes "distinct (map file_name d)"
  shows "cleanup_old_ftp_files d k =
     (if \<forall>v \<in> set (sweep_victims d k). \<not> unlink_denied v
      then (filter (\<lambda>g. g \<notin> set (sweep_victims d k)) d, Inr (length (sweep_victims d k)))
      else (filter (\<lambda>g. g \<notin> set (takeWhile (\<lambda>v. \<not> unlink_denied v) (sweep_victims d k))) d,
            Inl PermissionError))"
proof -
  have eq: "sweep_victims d k = group_victims (group_by_part (glob_nc d)) k"
    by (simp add: sweep_victims_def group_victims_def)
  show ?thesis
    unfolding cleanup_old_ftp_files_def eq
    using cleanup_parts_result [of d "group_by_part (glob_nc d)" k 0] assms
      sweep_victims_distinct [of d k] sweep_victims_in_dir [of d k]
    by (simp add: eq)
qed

lemma sweep_victims_iff:
  "f \<in> set (sweep_victims d k) \<longleftrightarrow>
   f \<in> set (slice_from (sort_newest_first
               (filter (\<lambda>x. part_key x = part_key f) (glob_nc d))) k)"
  (is "?L \<longleftrightarrow> ?R")
proof
  assume ?L
  then obtain K fs where m: "(K, fs) \<in> set (group_by_part (glob_nc d))"
    and f: "f \<in> set (slice_from (sort_newest_first fs) k)"
    by (auto simp: sweep_victims_def)
  from m have fs: "fs = filter (\<lambda>x. part_key x = K) (glob_nc d)"
    by (simp add: group_by_part_member)
  have "f \<in> set fs"
    using set_mset_mono [OF mset_slice_subset [of fs k]] f by auto
  then have "part_key f = K" by (simp add: fs)
  with f fs show ?R by simp
next
  assume r: ?R
  let ?fs = "filter (\<lambda>x. part_key x = part_key f) (glob_nc d)"
  have "f \<in> set ?fs"
    using set_mset_mono [OF mset_slice_subset [of ?fs k]] r by auto
  then have "?fs \<noteq> []" by (metis empty_iff empty_set)
  then have "(part_key f, ?fs) \<in> set (group_by_part (glob_nc d))"
    by (simp add: group_by_part_member)
  with r show ?L by (force simp: sweep_victims_def)
qed


lemma length_filter_notin:
  assumes "distinct d" "distinct vs" "set vs \<subseteq> set d"
  shows "length (filter (\<lambda>g. g \<notin> set vs) d) = length d - length vs"
proof -
  have "{x. x \<notin> set vs} \<inter> set d = set d - set vs" by auto
  then have "length (filter (\<lambda>g. g \<notin> set vs) d) = card (set d - set vs)"
    using assms(1) by (simp add: distinct_length_filter)
  also have "\<dots> = card (set d) - card (set vs)"
    using assms(3) by (simp add: card_Diff_subset)
  finally show ?thesis
    using assms(1,2) by (simp add: distinct_card)
qed

lemma keep_newest:
  assumes "distinct g" and "0 \<le> k"
  defines "s \<equiv> sort_newest_first g"
  shows "filter (\<lambda>f. f \<notin> set (slice_from s k)) g = filter (\<lambda>f. f \<in> set (take (nat k) s)) g"
    and "length (filter (\<lambda>f. f \<notin> set (slice_from s k)) g) = min (nat k) (length g)"
    and "\<forall>a \<in> set (take (nat k) s). \<forall>b \<in> set (slice_from s k). st_mtime b \<le> st_mtime a"
proof -
  have sl: "slice_from s k = drop (nat k) s"
    using assms(2) by (simp add: slice_from_def)
  have ds: "distinct s" and ss: "set s = set g" and ls: "length s = length g"
    using assms(1) by (simp_all add: s_def sort_newest_first_def)
  have split: "s = take (nat k) s @ drop (nat k) s" by simp
  have disj: "set (take (nat k) s) \<inter> set (drop (nat k) s) = {}"
    using ds by (metis split distinct_append)
  have un: "set (take (nat k) s) \<union> set (drop (nat k) s) = set g"
    using ss by (metis split set_append)
  show "filter (\<lambda>f. f \<notin> set (slice_from s k)) g = filter (\<lambda>f. f \<in> set (take (nat k) s)) g"
    unfolding sl by (rule filter_cong) (use disj un in auto)
  have "length (filter (\<lambda>f. f \<notin> set (drop (nat k) s)) g) = length g - length (drop (nat k) s)"
    by (rule length_filter_notin) (use assms(1) ds un in auto)
  then show "length (filter (\<lambda>f. f \<notin> set (slice_from s k)) g) = min (nat k) (length g)"
    unfolding sl by (simp add: ls)
  have "sorted (map (\<lambda>x. - st_mtime x) s)"
    by (simp add: s_def sort_newest_first_def)
  then have "sorted (map (\<lambda>x. - st_mtime x) (take (nat k) s) @ map (\<lambda>x. - st_mtime x) (drop (nat k) s))"
    by (metis split map_append)
  then show "\<forall>a \<in> set (take (nat k) s). \<forall>b \<in> set (slice_from s k). st_mtime b \<le> st_mtime a"
    unfolding sl by (auto simp: sorted_append)
qed

lemma glob_nc_filter: "glob_nc (filter P d) = filter P (glob_nc d)"
  by (induction d) (auto simp: glob_nc_def)

lemma group_after_sweep:
  "filter (\<lambda>f. part_key f = K) (glob_nc (filter (\<lambda>g. g \<notin> set (sweep_victims d k)) d)) =
   filter (\<lambda>f. f \<notin> set (slice_from (sort_newest_first
              (filter (\<lambda>f. part_key f = K) (glob_nc d))) k))
          (filter (\<lambda>f. part_key f = K) (glob_nc d))"
proof -
  have "filter (\<lambda>f. part_key f = K) (filter (\<lambda>g. g \<notin> set (sweep_victims d k)) (glob_nc d)) =
        filter (\<lambda>g. g \<notin> set (sweep_victims d k)) (filter (\<lambda>f. part_key f = K) (glob_nc d))"
    by (simp add: conj_commute)
  also have "\<dots> = filter (\<lambda>f. f \<notin> set (slice_from (sort_newest_first
              (filter (\<lambda>f. part_key f = K) (glob_nc d))) k))
          (filter (\<lambda>f. part_key f = K) (glob_nc d))"
    by (rule filter_cong) (auto simp: sweep_victims_iff)
  finally show ?thesis by (simp add: glob_nc_filter)
qed

lemma sweep_victims_small_groups:
  assumes "0 \<le> k"
    and "\<And>K. length (filter (\<lambda>f. part_key f = K) (glob_nc d)) \<le> nat k"
  shows "sweep_victims d k = []"
proof -
  have "f \<notin> set (sweep_victims d k)" for f
    using assms(2) [of "part_key f"] assms(1)
    by (simp add: sweep_victims_iff slice_from_def sort_newest_first_def)
  then show ?thesis by (metis last_in_set)
qed

lemma distinct_glob_group:
  "distinct (map file_name d) \<Longrightarrow> distinct (filter (\<lambda>f. part_key f = K) (glob_nc d))"
  by (simp add: glob_nc_def distinct_entries)

lemmas parse_defs = parse_content_def scan_content_def gcode_header_def nl_def py_strip_def py_strip_chars_def
  py_isspace_def startswith_def METADATA_START_def METADATA_END_def match_program_number_def is_digit_def
  parse_metadata_line_def field_key_def py_lower_def py_lower_char_def int_or_zero_def get_or_def
  py_int_def parse_digits_def digit_value_def max_str_digits_def


lemmas archive_defs =
  archive_gcode_def get_part_dir_def get_project_dir_def get_next_version_number_def
  get_existing_versions_def glob_nc_files_def version_file_name_def copy2_def
  update_changelog_def changelog_header_def changelog_entry_def readlines_def
  str_int_def str_nat.simps digit_char_def endswith_def startswith_def
  example_posted_datetime_def example_metadata_def example_source_def three_archivals_def
  empty_archive_def changelog_of_def nl_def

lemma digit_char_code: "n < 10 \<Longrightarrow> of_char (digit_char n) = 48 + n"
proof -
  assume "n < 10"
  then have "n \<in> {0, 1, 2, 3, 4, 5, 6, 7, 8, 9}" by auto
  then show ?thesis by (auto simp: digit_char_def)
qed

lemma is_digit_digit_char: "n < 10 \<Longrightarrow> is_digit (digit_char n)"
  by (simp add: is_digit_def digit_char_code)

lemma str_nat_digits: "c \<in> set (str_nat n) \<Longrightarrow> is_digit c"
proof (induction n rule: str_nat.induct)
  case (1 n)
  then show ?case
    by (subst (asm) (2) str_nat.simps) (auto simp: is_digit_digit_char split: if_splits)
qed

lemma nat_of_digits_str_nat: "nat_of_digits (str_nat n) = n"
proof (induction n rule: str_nat.induct)
  case (1 n)
  show ?case
  proof (cases "n < 10")
    case True
    then show ?thesis
      by (subst str_nat.simps) (simp add: nat_of_digits_def digit_char_code)
  next
    case False
    with 1 have "nat_of_digits (str_nat (n div 10)) = n div 10" by simp
    with False show ?thesis
      by (subst str_nat.simps) (simp add: nat_of_digits_def digit_char_code)
  qed
qed

lemma str_nat_inj: "str_nat i = str_nat j \<Longrightarrow> i = j"
  by (metis nat_of_digits_str_nat)

lemma digits_prefix_unique:
  assumes "xs @ CHR ''_'' # r = ys @ CHR ''_'' # r'"
    and "\<forall>c \<in> set xs. is_digit c" and "\<forall>c \<in> set ys. is_digit c"
  shows "xs = ys"
proof -
  have nd: "\<not> is_digit CHR ''_''" by (simp add: is_digit_def)
  from assms(1) obtain us where
    "xs = ys @ us \<and> us @ CHR ''_'' # r = CHR ''_'' # r' \<or>
     xs @ us = ys \<and> CHR ''_'' # r = us @ CHR ''_'' # r'"
    by (auto simp: append_eq_append_conv2)
  then show ?thesis
  proof
    assume a: "xs = ys @ us \<and> us @ CHR ''_'' # r = CHR ''_'' # r'"
    show ?thesis
    proof (cases us)
      case Nil
      with a show ?thesis by simp
    next
      case (Cons u us')
      with a have "u = CHR ''_''" "u \<in> set xs" by auto
      with assms(2) nd show ?thesis by auto
    qed
  next
    assume a: "xs @ us = ys \<and> CHR ''_'' # r = us @ CHR ''_'' # r'"
    show ?thesis
    proof (cases us)
      case Nil
      with a show ?thesis by simp
    next
      case (Cons u us')
      with a have "u = CHR ''_''" "u \<in> set ys" by auto
      with assms(3) nd show ?thesis by auto
    qed
  qed
qed

lemma version_file_name_inj:
  assumes "version_file_name md i = version_file_name md' j"
    and "sanitize_filename (part md) = sanitize_filename (part md')"
  shows "i = j"
proof -
  from assms have "str_nat i @ CHR ''_'' # (posted_timestamp md @ ''.nc'') =
                   str_nat j @ CHR ''_'' # (posted_timestamp md' @ ''.nc'')"
    by (simp add: version_file_name_def)
  then have "str_nat i = str_nat j"
    by (rule digits_prefix_unique) (auto dest: str_nat_digits)
  then show ?thesis by (rule str_nat_inj)
qed

lemma endswith_append: "endswith (xs @ p) p"
  by (simp add: endswith_def)

lemma version_file_name_nc: "endswith (version_file_name md i) ''.nc''"
  using endswith_append [of "sanitize_filename (part md) @ ''_v'' @ str_nat i @ ''_'' @ posted_timestamp md" "''.nc''"]
  by (simp add: version_file_name_def)

lemma of_char_py_lower_char:
  "of_char (py_lower_char c) =
     (let n = (of_char c :: nat) in
        if (65 \<le> n \<and> n \<le> 90) \<or> (192 \<le> n \<and> n \<le> 214) \<or> (216 \<le> n \<and> n \<le> 222)
        then n + 32 else n)"
  by (cases c) (auto simp: py_lower_char_def Let_def)

lemma set_sub_underscore_runs: "set (sub_underscore_runs s) \<subseteq> set s"
proof (induction s rule: sub_underscore_runs.induct)
  case 1
  then show ?case by simp
next
  case (2 c cs)
  then show ?case
    by (auto dest: set_dropWhileD)
qed

lemma set_py_strip_chars: "set (py_strip_chars P s) \<subseteq> set s"
proof
  fix x
  assume "x \<in> set (py_strip_chars P s)"
  then have "x \<in> set (dropWhile P (rev (dropWhile P s)))"
    by (simp add: py_strip_chars_def)
  then have "x \<in> set (rev (dropWhile P s))" by (rule set_dropWhileD)
  then have "x \<in> set (dropWhile P s)" by simp
  then show "x \<in> set s" by (rule set_dropWhileD)
qed

lemma sanitize_filename_chars:
  assumes "c \<in> set (sanitize_filename name)"
  shows "(of_char c :: nat) \<noteq> 0 \<and> (of_char c :: nat) \<noteq> 47"
proof -
  from assms obtain x where c: "c = py_lower_char x"
    and "x \<in> set (py_strip_chars (\<lambda>c. c = CHR ''_'') (sub_underscore_runs (sub_unsafe_chars name)))"
    by (auto simp: sanitize_filename_def py_lower_def)
  then have "x \<in> set (sub_unsafe_chars name)"
    using set_py_strip_chars set_sub_underscore_runs by blast
  then have "code_keeps x"
    by (auto simp: sub_unsafe_chars_keep code_keeps_def split: if_splits)
  then have "(of_char x :: nat) \<noteq> 0 \<and> (of_char x :: nat) \<noteq> 47"
    by (auto simp: code_keeps_def py_isalnum_def Let_def)
  then show ?thesis
    unfolding c of_char_py_lower_char Let_def by (auto split: if_splits)
qed

lemma sanitize_filename_valid:
  "CHR 0x00 \<notin> set (sanitize_filename name) \<and> CHR ''/'' \<notin> set (sanitize_filename name)"
  using sanitize_filename_chars [of "CHR 0x00" name] sanitize_filename_chars [of "CHR ''/''" name]
  by auto

lemma version_file_name_valid:
  assumes "CHR 0x00 \<notin> set (posted_timestamp md)" "CHR ''/'' \<notin> set (posted_timestamp md)"
  shows "CHR 0x00 \<notin> set (version_file_name md i) \<and> CHR ''/'' \<notin> set (version_file_name md i)"
proof -
  have "\<not> is_digit (CHR 0x00)" "\<not> is_digit CHR ''/''" by (simp_all add: is_digit_def)
  then have "CHR 0x00 \<notin> set (str_nat i)" "CHR ''/'' \<notin> set (str_nat i)"
    using str_nat_digits by blast+
  with assms sanitize_filename_valid [of "part md"] show ?thesis
    by (simp add: version_file_name_def)
qed

lemma filter_update_other:
  "\<not> P k \<Longrightarrow> filter (\<lambda>(n, f). P n) (AList.update k v al) = filter (\<lambda>(n, f). P n) al"
  by (induction al) auto

lemma filter_update_fresh:
  "k \<notin> fst ` set al \<Longrightarrow> P k \<Longrightarrow>
   filter (\<lambda>(n, f). P n) (AList.update k v al) = filter (\<lambda>(n, f). P n) al @ [(k, v)]"
  by (induction al) auto

lemma glob_nc_files_changelog:
  "glob_nc_files (update_changelog dt now d md v) = glob_nc_files d"
  by (simp add: glob_nc_files_def update_changelog_def Let_def filter_update_other endswith_def)


lemma get_next_version_number_count:
  "get_next_version_number a P Q = length (glob_nc_files (a (get_part_dir P Q))) + 1"
  by (simp add: get_next_version_number_def get_existing_versions_def)

lemma archive_gcode_step:
  assumes v: "valid_timestamp md"
    and k: "length (glob_nc_files (a (get_part_dir (project md) (part md)))) = k"
    and shape: "\<forall>name \<in> fst ` set (glob_nc_files (a (get_part_dir (project md) (part md)))).
        \<exists>i md'. i \<le> k \<and> sanitize_filename (part md') = sanitize_filename (part md) \<and>
                name = version_file_name md' i"
  shows "\<exists>a'. archive_gcode dt now a src md =
            Inr (a', (get_part_dir (project md) (part md), version_file_name md (k + 1)), k + 1)
          \<and> glob_nc_files (a' (get_part_dir (project md) (part md))) =
              glob_nc_files (a (get_part_dir (project md) (part md))) @
                [(version_file_name md (k + 1), src)]"
proof -
  let ?p = "get_part_dir (project md) (part md)"
  let ?n = "version_file_name md (k + 1)"
  have ver: "get_next_version_number a (project md) (part md) = k + 1"
    using k by (simp add: get_next_version_number_count)
  have ok: "CHR 0x00 \<notin> set ?n \<and> CHR ''/'' \<notin> set ?n"
    using v by (simp add: valid_timestamp_def version_file_name_valid)
  have fresh: "?n \<notin> fst ` set (a ?p)"
  proof
    assume "?n \<in> fst ` set (a ?p)"
    then obtain f where "(?n, f) \<in> set (a ?p)" by auto
    then have "(?n, f) \<in> set (glob_nc_files (a ?p))"
      by (simp add: glob_nc_files_def version_file_name_nc)
    then have "?n \<in> fst ` set (glob_nc_files (a ?p))" by force
    with shape obtain i md' where "i \<le> k"
      "sanitize_filename (part md') = sanitize_filename (part md)"
      "?n = version_file_name md' i" by blast
    then have "k + 1 = i" using version_file_name_inj [of md "k + 1" md' i] by simp
    with \<open>i \<le> k\<close> show False by simp
  qed
  let ?d = "AList.update ?n src (a ?p)"
  let ?a = "a(?p := update_changelog dt now ?d md (k + 1))"
  have r: "archive_gcode dt now a src md = Inr (?a, (?p, ?n), k + 1)"
    using ok by (simp add: archive_gcode_def Let_def ver copy2_def)
  have "glob_nc_files (?a ?p) = glob_nc_files ?d"
    by (simp add: glob_nc_files_changelog)
  also have "\<dots> = glob_nc_files (a ?p) @ [(?n, src)]"
    using fresh filter_update_fresh [of ?n "a ?p" "\<lambda>n. endswith n ''.nc''" src]
    by (simp add: glob_nc_files_def version_file_name_nc)
  finally have "glob_nc_files (?a ?p) = glob_nc_files (a ?p) @ [(?n, src)]" .
  with r show ?thesis by (intro exI [of _ ?a] conjI)
qed

lemma archive_all_from:
  assumes "\<forall>(now, src, md) \<in> set calls. project md = P \<and> part md = Q \<and> valid_timestamp md"
    and "length (glob_nc_files (a (get_part_dir P Q))) = k"
    and "\<forall>name \<in> fst ` set (glob_nc_files (a (get_part_dir P Q))).
        \<exists>i md'. i \<le> k \<and> sanitize_filename (part md') = sanitize_filename Q \<and>
                name = version_file_name md' i"
  shows "\<exists>a'. archive_all dt a calls = Inr (a', [k + 1..<k + 1 + length calls])
          \<and> map fst (glob_nc_files (a' (get_part_dir P Q))) =
              map fst (glob_nc_files (a (get_part_dir P Q))) @
              map (\<lambda>(i, now, src, md). version_file_name md i)
                  (zip [k + 1..<k + 1 + length calls] calls)"
  using assms
proof (induction calls arbitrary: a k)
  case Nil
  then show ?case by simp
next
  case (Cons c calls)
  obtain now src md where c: "c = (now, src, md)" by (cases c)
  let ?p = "get_part_dir P Q"
  from Cons.prems(1) have md: "project md = P" "part md = Q" "valid_timestamp md"
    by (auto simp: c)
  from archive_gcode_step [of md a k dt now src] md Cons.prems(2,3)
  obtain a1 where step: "archive_gcode dt now a src md =
        Inr (a1, (?p, version_file_name md (k + 1)), k + 1)"
    and nc: "glob_nc_files (a1 ?p) = glob_nc_files (a ?p) @ [(version_file_name md (k + 1), src)]"
    by auto
  have 1: "\<forall>(now, src, md) \<in> set calls. project md = P \<and> part md = Q \<and> valid_timestamp md"
    using Cons.prems(1) by simp
  have 2: "length (glob_nc_files (a1 ?p)) = k + 1"
    using nc Cons.prems(2) by simp
  have 3: "\<forall>name \<in> fst ` set (glob_nc_files (a1 ?p)).
        \<exists>i md'. i \<le> k + 1 \<and> sanitize_filename (part md') = sanitize_filename Q \<and>
                name = version_file_name md' i"
  proof
    fix name
    assume "name \<in> fst ` set (glob_nc_files (a1 ?p))"
    then consider "name \<in> fst ` set (glob_nc_files (a ?p))" | "name = version_file_name md (k + 1)"
      by (auto simp: nc)
    then show "\<exists>i md'. i \<le> k + 1 \<and> sanitize_filename (part md') = sanitize_filename Q \<and>
                name = version_file_name md' i"
    proof cases
      case 1
      with Cons.prems(3) obtain i md' where "i \<le> k"
        "sanitize_filename (part md') = sanitize_filename Q" "name = version_file_name md' i"
        by blast
      then show ?thesis by (intro exI [of _ i] exI [of _ md']) simp
    next
      case 2
      with md show ?thesis by (intro exI [of _ "k + 1"] exI [of _ md]) simp
    qed
  qed
  from Cons.IH [of a1 "k + 1"] 1 2 3
  obtain a2 where rest: "archive_all dt a1 calls = Inr (a2, [k + 1 + 1..<k + 1 + 1 + length calls])"
    and names: "map fst (glob_nc_files (a2 ?p)) =
              map fst (glob_nc_files (a1 ?p)) @
              map (\<lambda>(i, now, src, md). version_file_name md i)
                  (zip [k + 1 + 1..<k + 1 + 1 + length calls] calls)"
    by blast
  have upt: "[k + 1..<k + 1 + length (c # calls)] = (k + 1) # [k + 1 + 1..<k + 1 + 1 + length calls]"
    by (subst upt_rec) simp
  have "archive_all dt a (c # calls) = Inr (a2, [k + 1..<k + 1 + length (c # calls)])"
    unfolding upt using step rest by (simp add: c)
  moreover have "map fst (glob_nc_files (a2 ?p)) =
              map fst (glob_nc_files (a ?p)) @
              map (\<lambda>(i, now, src, md). version_file_name md i)
                  (zip [k + 1..<k + 1 + length (c # calls)] (c # calls))"
    unfolding upt using names nc by (simp add: c)
  ultimately show ?case by blast
qed

lemma version_names_distinct:
  assumes "\<forall>(now, src, md) \<in> set calls. part md = Q"
  shows "distinct (map (\<lambda>(i, now, src, md). version_file_name md i)
                       (zip [m..<m + length calls] (calls :: (int \<times> stored_file \<times> metadata) list)))"
proof -
  let ?f = "\<lambda>(i, now, src, md). version_file_name md i"
  let ?zs = "zip [m..<m + length calls] calls"
  have len: "length ?zs = length calls" by simp
  have nth: "?f (?zs ! i) = version_file_name (snd (snd (calls ! i))) (m + i)"
    if "i < length calls" for i
    using that by (simp add: case_prod_beta)
  have part: "part (snd (snd (calls ! i))) = Q" if "i < length calls" for i
  proof -
    from that have "calls ! i \<in> set calls" by simp
    with assms show ?thesis by (fastforce simp: case_prod_beta)
  qed
  show ?thesis
    unfolding distinct_conv_nth
  proof (intro allI impI)
    fix i j
    assume i: "i < length (map ?f ?zs)" and j: "j < length (map ?f ?zs)" and ne: "i \<noteq> j"
    then have i': "i < length calls" and j': "j < length calls" by simp_all
    show "map ?f ?zs ! i \<noteq> map ?f ?zs ! j"
    proof
      assume "map ?f ?zs ! i = map ?f ?zs ! j"
      then have "version_file_name (snd (snd (calls ! i))) (m + i) =
                 version_file_name (snd (snd (calls ! j))) (m + j)"
        using i' j' nth by (simp del: upt_Suc)
      then have "m + i = m + j"
        by (rule version_file_name_inj) (simp add: part i' j')
      with ne show False by simp
    qed
  qed
qed

lemma digits_after_chars:
  "digits_after acc s = Some n \<Longrightarrow> \<forall>c \<in> set s. is_digit c \<or> c = CHR ''_''"
  by (induction acc s rule: digits_after.induct) (auto split: if_splits)

lemma parse_digits_chars:
  "parse_digits s = Some n \<Longrightarrow> \<forall>c \<in> set s. is_digit c \<or> c = CHR ''_''"
  by (cases s) (auto simp: parse_digits_def split: if_splits dest: digits_after_chars)

lemma strip_chars_cover:
  assumes "x \<in> set s"
  shows "x \<in> set (py_strip_chars P s) \<or> P x"
proof -
  let ?u = "dropWhile P s"
  have "set s = set (takeWhile P s) \<union> set ?u"
    by (metis set_append takeWhile_dropWhile_id)
  moreover have "set (rev ?u) = set (takeWhile P (rev ?u)) \<union> set (dropWhile P (rev ?u))"
    by (metis set_append takeWhile_dropWhile_id)
  ultimately have "x \<in> set (takeWhile P s) \<or> x \<in> set (takeWhile P (rev ?u))
      \<or> x \<in> set (dropWhile P (rev ?u))"
    using assms by auto
  then show ?thesis
    by (auto simp: py_strip_chars_def dest: set_takeWhileD)
qed

lemma py_int_chars:
  assumes "py_int v = Some n"
  shows "\<forall>c \<in> set v. numeric_char c"
proof
  fix c
  assume "c \<in> set v"
  then have "c \<in> set (py_strip v) \<or> py_isspace c"
    unfolding py_strip_def by (rule strip_chars_cover)
  moreover have "\<forall>c \<in> set (py_strip v). numeric_char c"
  proof (cases "py_strip v")
    case Nil
    then show ?thesis by simp
  next
    case (Cons a rest)
    consider (minus) k where "a = CHR ''-''" "parse_digits rest = Some k"
      | (plus) "a = CHR ''+''" "parse_digits rest = Some n"
      | (plain) "parse_digits (a # rest) = Some n"
      using assms Cons by (auto simp: py_int_def split: if_splits)
    then show ?thesis
    proof cases
      case minus
      from parse_digits_chars [OF minus(2)] minus(1) show ?thesis
        by (auto simp: Cons numeric_char_def)
    next
      case plus
      from parse_digits_chars [OF plus(2)] plus(1) show ?thesis
        by (auto simp: Cons numeric_char_def)
    next
      case plain
      from parse_digits_chars [OF plain] show ?thesis
        by (auto simp: Cons numeric_char_def)
    qed
  qed
  ultimately show "numeric_char c" by (auto simp: numeric_char_def)
qed



lemma before_first_found:
  "\<not> contains p ''_v'' \<Longrightarrow> before_first ''_v'' (p @ ''_v'' @ r) = p"
proof (induction p)
  case Nil
  then show ?case by (simp add: startswith_def)
next
  case (Cons c p)
  from Cons.prems have 1: "\<not> startswith (c # p) ''_v''" and 2: "\<not> contains p ''_v''"
    by simp_all
  from 1 have "\<not> startswith (c # p @ ''_v'' @ r) ''_v''"
    by (cases p) (auto simp: startswith_def)
  with Cons.IH [OF 2] show ?case by simp
qed

lemma before_first_absent:
  "\<not> contains s ''_v'' \<Longrightarrow> before_first ''_v'' s = s"
  by (induction s) auto

lemma rfind_char_suffix:
  "c \<notin> set r \<Longrightarrow> rfind_char c (s @ c # r) = int (length s)"
  by (simp add: rfind_char_def takeWhile_append)

lemma path_stem_nc: "s \<noteq> [] \<Longrightarrow> path_stem (s @ ''.nc'') = s"
  using rfind_char_suffix [of "CHR ''.''" "''nc''" s]
  by (simp add: path_stem_def)

lemma part_key_versioned:
  assumes "file_name f = p @ ''_v'' @ r @ ''.nc''" and "\<not> contains p ''_v''"
  shows "part_key f = p"
proof -
  have "path_stem (file_name f) = p @ ''_v'' @ r"
    using path_stem_nc [of "p @ ''_v'' @ r"] assms(1) by simp
  then show ?thesis
    using before_first_found [OF assms(2), of r] by (simp add: part_key_def)
qed

lemma part_key_unversioned:
  assumes "file_name f = s @ ''.nc''" and "s \<noteq> []" and "\<not> contains s ''_v''"
  shows "part_key f = s"
  using assms by (simp add: part_key_def path_stem_nc before_first_absent)

lemma length_glob_split:
  "length d = length (glob_nc d) + length (filter (\<lambda>f. \<not> endswith (file_name f) ''.nc'') d)"
  by (simp add: glob_nc_def sum_length_filter_compl)

lemma removed_are_nc:
  assumes "\<forall>f \<in> set d. \<not> endswith (file_name f) ''.nc'' \<longrightarrow> f \<in> set d'"
    and "d' = filter (\<lambda>f. f \<in> set d') d"
  shows "length d - length d' = length (glob_nc d) - length (glob_nc d')"
proof -
  have "filter (\<lambda>f. \<not> endswith (file_name f) ''.nc'') d' =
        filter (\<lambda>f. \<not> endswith (file_name f) ''.nc'') d"
    by (subst assms(2)) (use assms(1) in \<open>auto intro: filter_cong\<close>)
  then show ?thesis
    using length_glob_split [of d] length_glob_split [of d'] by simp
qed

lemma five_files_keep_two:
  assumes all: "\<forall>f \<in> set (glob_nc d). part_key f = K"
    and five: "length (glob_nc d) = 5"
    and sub: "d' = filter (\<lambda>f. f \<in> set d') d"
    and others: "\<forall>f \<in> set d. \<not> endswith (file_name f) ''.nc'' \<longrightarrow> f \<in> set d'"
    and kept: "length (filter (\<lambda>f. part_key f = K) (glob_nc d')) =
                 min (nat 2) (length (filter (\<lambda>f. part_key f = K) (glob_nc d)))"
  shows "length d - length d' = 3"
proof -
  have g: "filter (\<lambda>f. part_key f = K) (glob_nc d) = glob_nc d"
    using all by simp
  have "set (glob_nc d') \<subseteq> set (glob_nc d)"
    by (subst sub) (auto simp: glob_nc_def)
  with all have g': "filter (\<lambda>f. part_key f = K) (glob_nc d') = glob_nc d'"
    by (auto intro: filter_True)
  from kept have "length (glob_nc d') = 2"
    unfolding g g' five by simp
  with removed_are_nc [OF others sub] five show ?thesis by simp
qed


section \<open>Properties of change detection\<close>

text \<open>
  C6. When the tool counts differ, the comparison records a \<open>tool_count\<close> change with the
  old and the new count. The tool-count warning, which is of high severity, is emitted if
  and only if the absolute difference is at least 2: a difference of exactly 1 gives the
  change entry and no tool-count warning, a difference of exactly 2 gives the warning.
\<close>

theorem compare_metadata_tool_count:
  fixes old new :: metadata
  defines "r \<equiv> compare_metadata old new"
  shows "(tool_count old \<noteq> tool_count new \<longrightarrow>
            has_changes r \<and>
            map_of (changes r) ''tool_count'' =
              Some \<lparr>old_value = IntVal (tool_count old), new_value = IntVal (tool_count new)\<rparr>)
       \<and> (tool_count old = tool_count new \<longrightarrow> map_of (changes r) ''tool_count'' = None)
       \<and> ((\<exists>w \<in> set (warnings r). about_tool_count w \<and> high_severity w)
            \<longleftrightarrow> \<bar>tool_count new - tool_count old\<bar> \<ge> 2)
       \<and> (\<forall>w \<in> set (warnings r). about_tool_count w \<longrightarrow>
            w = ToolCountSignificant (tool_count old) (tool_count new))
       \<and> (\<bar>tool_count new - tool_count old\<bar> = 1 \<longrightarrow>
            map_of (changes r) ''tool_count'' \<noteq> None \<and>
            (\<forall>w \<in> set (warnings r). \<not> about_tool_count w))
       \<and> (\<bar>tool_count new - tool_count old\<bar> = 2 \<longrightarrow>
            ToolCountSignificant (tool_count old) (tool_count new) \<in> set (warnings r))"
  unfolding r_def by (auto simp: compare_defs Let_def)

theorem compare_metadata_tool_count_witness:
  "compare_metadata
     \<lparr>project = ''HYDRAULIC MANIFOLD'', part = ''1001'', posted_timestamp = ''2025-10-30-1445'',
      operations = 3, tool_count = 5, machine = ''PUMA'', setup_name = ''OP1-ROUGH-FACE'',
      program_number = Some ''1001''\<rparr>
     \<lparr>project = ''HYDRAULIC MANIFOLD'', part = ''1001'', posted_timestamp = ''2025-10-31-0900'',
      operations = 3, tool_count = 7, machine = ''PUMA'', setup_name = ''OP1-ROUGH-FACE'',
      program_number = Some ''1001''\<rparr>
   = \<lparr>has_changes = True, warnings = [ToolCountSignificant 5 7],
      changes = [(''tool_count'', \<lparr>old_value = IntVal 5, new_value = IntVal 7\<rparr>)]\<rparr>
   \<and> \<bar>(7::int) - 5\<bar> = 2"
  using compare_metadata_tool_count
    [of "\<lparr>project = ''HYDRAULIC MANIFOLD'', part = ''1001'',
          posted_timestamp = ''2025-10-30-1445'',
          operations = 3, tool_count = 5, machine = ''PUMA'', setup_name = ''OP1-ROUGH-FACE'',
          program_number = Some ''1001''\<rparr>"
        "\<lparr>project = ''HYDRAULIC MANIFOLD'', part = ''1001'',
          posted_timestamp = ''2025-10-31-0900'',
          operations = 3, tool_count = 7, machine = ''PUMA'', setup_name = ''OP1-ROUGH-FACE'',
          program_number = Some ''1001''\<rparr>"]
  by (simp add: compare_defs Let_def)

text \<open>
  C8. Comparing (old = A, new = B) and (old = B, new = A) gives the same
  \<open>has_changes\<close> flag and the same set of changed-field keys, and the changes mapping of
  one is the changes mapping of the other with old and new values swapped. This holds for
  every pair of records, so in particular for records with differing tool counts, for
  which \<open>has_changes\<close> is true and \<open>tool_count\<close> is among the keys.
\<close>

theorem compare_metadata_swap:
  "has_changes (compare_metadata a b) = has_changes (compare_metadata b a)
   \<and> fst ` set (changes (compare_metadata a b)) = fst ` set (changes (compare_metadata b a))
   \<and> map fst (changes (compare_metadata a b)) = map fst (changes (compare_metadata b a))
   \<and> changes (compare_metadata b a) =
       map (\<lambda>(k, e). (k, swap_entry e)) (changes (compare_metadata a b))
   \<and> (tool_count a \<noteq> tool_count b \<longrightarrow>
        has_changes (compare_metadata a b) \<and>
        ''tool_count'' \<in> fst ` set (changes (compare_metadata a b)) \<and>
        map_of (changes (compare_metadata a b)) ''tool_count'' =
          Some \<lparr>old_value = IntVal (tool_count a), new_value = IntVal (tool_count b)\<rparr> \<and>
        map_of (changes (compare_metadata b a)) ''tool_count'' =
          Some \<lparr>old_value = IntVal (tool_count b), new_value = IntVal (tool_count a)\<rparr>)"
  by (simp add: compare_defs Let_def swap_entry_def)

theorem compare_metadata_swap_witness:
  "tool_count
     \<lparr>project = ''p'', part = ''1001'', posted_timestamp = ''2025-10-30-1445'',
      operations = 3, tool_count = 5, machine = ''PUMA'', setup_name = ''OP1'',
      program_number = None\<rparr>
   \<noteq> tool_count
     \<lparr>project = ''p'', part = ''1001'', posted_timestamp = ''2025-10-31-0900'',
      operations = 4, tool_count = 6, machine = ''PUMA'', setup_name = ''OP2'',
      program_number = None\<rparr>
   \<and> changes (compare_metadata
     \<lparr>project = ''p'', part = ''1001'', posted_timestamp = ''2025-10-31-0900'',
      operations = 4, tool_count = 6, machine = ''PUMA'', setup_name = ''OP2'',
      program_number = None\<rparr>
     \<lparr>project = ''p'', part = ''1001'', posted_timestamp = ''2025-10-30-1445'',
      operations = 3, tool_count = 5, machine = ''PUMA'', setup_name = ''OP1'',
      program_number = None\<rparr>)
   = [(''tool_count'', \<lparr>old_value = IntVal 6, new_value = IntVal 5\<rparr>),
      (''operations'', \<lparr>old_value = IntVal 4, new_value = IntVal 3\<rparr>),
      (''setup'', \<lparr>old_value = StrVal ''OP2'', new_value = StrVal ''OP1''\<rparr>)]"
  using compare_metadata_swap
    [of "\<lparr>project = ''p'', part = ''1001'', posted_timestamp = ''2025-10-30-1445'',
          operations = 3, tool_count = 5, machine = ''PUMA'', setup_name = ''OP1'',
          program_number = None\<rparr>"
        "\<lparr>project = ''p'', part = ''1001'', posted_timestamp = ''2025-10-31-0900'',
          operations = 4, tool_count = 6, machine = ''PUMA'', setup_name = ''OP2'',
          program_number = None\<rparr>"]
  by (simp add: compare_defs Let_def swap_entry_def)

text \<open>
  C9. A difference in setup is recorded as a change and emits no warning: the warnings are
  those of the comparison with the setups made equal. Only tool count, operations, machine
  and setup take part: the result does not change when project, part, posted timestamp or
  program number of either record are replaced by any other values.
\<close>

theorem compare_metadata_setup_and_ignored_fields:
  "(setup_name old \<noteq> setup_name new \<longrightarrow>
      has_changes (compare_metadata old new) \<and>
      map_of (changes (compare_metadata old new)) ''setup'' =
        Some \<lparr>old_value = StrVal (setup_name old), new_value = StrVal (setup_name new)\<rparr>)
   \<and> warnings (compare_metadata old new) =
       warnings (compare_metadata old (new\<lparr>setup_name := setup_name old\<rparr>))
   \<and> compare_metadata
        (old\<lparr>project := p1, part := q1, posted_timestamp := t1, program_number := n1\<rparr>)
        (new\<lparr>project := p2, part := q2, posted_timestamp := t2, program_number := n2\<rparr>)
      = compare_metadata old new"
  by (simp add: compare_defs Let_def)

theorem compare_metadata_setup_and_ignored_fields_witness:
  "setup_name
     \<lparr>project = ''p'', part = ''1001'', posted_timestamp = ''2025-10-30-1445'',
      operations = 3, tool_count = 5, machine = ''PUMA'', setup_name = ''OP1'',
      program_number = None\<rparr>
   \<noteq> setup_name
     \<lparr>project = ''p'', part = ''1001'', posted_timestamp = ''2025-10-31-0900'',
      operations = 3, tool_count = 5, machine = ''PUMA'', setup_name = ''OP2'',
      program_number = None\<rparr>
   \<and> compare_metadata
     \<lparr>project = ''p'', part = ''1001'', posted_timestamp = ''2025-10-30-1445'',
      operations = 3, tool_count = 5, machine = ''PUMA'', setup_name = ''OP1'',
      program_number = None\<rparr>
     \<lparr>project = ''p'', part = ''1001'', posted_timestamp = ''2025-10-31-0900'',
      operations = 3, tool_count = 5, machine = ''PUMA'', setup_name = ''OP2'',
      program_number = None\<rparr>
   = \<lparr>has_changes = True, warnings = [],
      changes = [(''setup'', \<lparr>old_value = StrVal ''OP1'', new_value = StrVal ''OP2''\<rparr>)]\<rparr>"
  using compare_metadata_setup_and_ignored_fields
    [of "\<lparr>project = ''p'', part = ''1001'', posted_timestamp = ''2025-10-30-1445'',
          operations = 3, tool_count = 5, machine = ''PUMA'', setup_name = ''OP1'',
          program_number = None\<rparr>"
        "\<lparr>project = ''p'', part = ''1001'', posted_timestamp = ''2025-10-31-0900'',
          operations = 3, tool_count = 5, machine = ''PUMA'', setup_name = ''OP2'',
          program_number = None\<rparr>"]
  by (simp add: compare_defs Let_def)

text \<open>
  C10. Records that agree on tool count, operations, machine and setup compare as
  unchanged: \<open>has_changes\<close> is false, the changes mapping is empty and there is no warning.
  Comparing a record against itself is the special case \<open>new = old\<close>.
\<close>

theorem compare_metadata_no_changes:
  "(tool_count old = tool_count new \<and> operations old = operations new \<and>
    machine old = machine new \<and> setup_name old = setup_name new \<longrightarrow>
      compare_metadata old new = \<lparr>has_changes = False, warnings = [], changes = []\<rparr>)
   \<and> compare_metadata old old = \<lparr>has_changes = False, warnings = [], changes = []\<rparr>"
  by (simp add: compare_defs)

theorem compare_metadata_no_changes_witness:
  "compare_metadata
     \<lparr>project = ''p'', part = ''1001'', posted_timestamp = ''2025-10-30-1445'',
      operations = 3, tool_count = 5, machine = ''PUMA'', setup_name = ''OP1'',
      program_number = Some ''1001''\<rparr>
     \<lparr>project = ''q'', part = ''1002'', posted_timestamp = ''2025-10-31-0900'',
      operations = 3, tool_count = 5, machine = ''PUMA'', setup_name = ''OP1'',
      program_number = None\<rparr>
   = \<lparr>has_changes = False, warnings = [], changes = []\<rparr>"
  using compare_metadata_no_changes
    [of "\<lparr>project = ''p'', part = ''1001'', posted_timestamp = ''2025-10-30-1445'',
          operations = 3, tool_count = 5, machine = ''PUMA'', setup_name = ''OP1'',
          program_number = Some ''1001''\<rparr>"
        "\<lparr>project = ''q'', part = ''1002'', posted_timestamp = ''2025-10-31-0900'',
          operations = 3, tool_count = 5, machine = ''PUMA'', setup_name = ''OP1'',
          program_number = None\<rparr>"]
  by simp

section \<open>Properties of name sanitization\<close>

text \<open>
  C3, as amended. For every input string, name sanitization replaces every character that
  is not a letter, a digit, an underscore or a hyphen by an underscore, collapses
  consecutive underscores to one, strips leading and trailing underscores and lower-cases
  the result. The hyphen is kept: the character class of the code is
  \<open>[^\w\-]\<close>.
\<close>

theorem sanitize_filename_keeps_hyphen:
  "sanitize_filename name = spec_sanitize code_keeps name"
  by (simp add: sanitize_filename_def spec_sanitize_def sub_underscore_runs_squeeze
      sub_unsafe_chars_keep py_strip_chars_def py_lower_def)

text \<open>
  C3 as stated fails on a name with a hyphen: the rule of the specification turns the
  hyphen of \<open>test-project\<close> into an underscore, the code keeps it.
\<close>

theorem sanitize_filename_hyphen_counterexample:
  "sanitize_filename ''test-project'' = ''test-project'' \<and>
   spec_sanitize spec_keeps ''test-project'' = ''test_project''"
  by (simp add: sanitize_defs)

section \<open>Properties of the retention sweep\<close>

text \<open>
  C5. In a publish directory whose files can all be unlinked, with a retention count
  \<open>keep_count\<close> that is not negative, the sweep returns the number of files it removed
  and leaves the other files in place and in order. Files are grouped by the part key,
  the text of the file name (without its suffix) before the first \<open>_v\<close>. Of each group
  the first \<open>keep_count\<close> files of the group sorted by modification time, newest first,
  are kept, so \<open>min keep_count n\<close> of \<open>n\<close> files, and no removed file is newer than a
  kept file of its group. A second sweep of the result with the same count removes nothing.
  With five files of one part key and a count of 2 the sweep removes 3 files. The part key
  of a file \<open>p_v....nc\<close> is \<open>p\<close> when \<open>_v\<close> does not occur in \<open>p\<close>, and the
  part key of a file without \<open>_v\<close> is its name without the suffix.
\<close>

theorem cleanup_old_ftp_files_retention:
  assumes "distinct (map file_name d)"
    and "\<forall>f \<in> set d. \<not> unlink_denied f"
    and "0 \<le> keep_count"
  shows "\<exists>d'. cleanup_old_ftp_files d keep_count = (d', Inr (length d - length d'))
     \<and> length d' \<le> length d
     \<and> d' = filter (\<lambda>f. f \<in> set d') d
     \<and> (\<forall>f \<in> set d. \<not> endswith (file_name f) ''.nc'' \<longrightarrow> f \<in> set d')
     \<and> (\<forall>K. let g = filter (\<lambda>f. part_key f = K) (glob_nc d);
                g' = filter (\<lambda>f. part_key f = K) (glob_nc d')
            in g' = filter (\<lambda>f. f \<in> set (take (nat keep_count) (sort_newest_first g))) g
             \<and> length g' = min (nat keep_count) (length g)
             \<and> (\<forall>a \<in> set g'. \<forall>b \<in> set g - set g'. st_mtime b \<le> st_mtime a))
     \<and> cleanup_old_ftp_files d' keep_count = (d', Inr 0)
     \<and> (\<forall>K. (\<forall>f \<in> set (glob_nc d). part_key f = K) \<and> length (glob_nc d) = 5 \<and> keep_count = 2
            \<longrightarrow> length d - length d' = 3)
     \<and> (\<forall>f p r. file_name f = p @ ''_v'' @ r @ ''.nc'' \<and> \<not> contains p ''_v''
            \<longrightarrow> part_key f = p)
     \<and> (\<forall>f s. file_name f = s @ ''.nc'' \<and> s \<noteq> [] \<and> \<not> contains s ''_v''
            \<longrightarrow> part_key f = s)"
proof -
  let ?vs = "sweep_victims d keep_count"
  let ?d = "filter (\<lambda>g. g \<notin> set ?vs) d"
  have vs_d: "set ?vs \<subseteq> set d" by (rule sweep_victims_in_dir)
  have ok: "\<forall>v \<in> set ?vs. \<not> unlink_denied v"
    using assms(2) vs_d by auto
  have len: "length ?d = length d - length ?vs"
    using assms(1) vs_d by (simp add: length_filter_notin distinct_entries sweep_victims_distinct)
  have "length ?vs \<le> length d"
    using assms(1) vs_d by (metis distinct_card sweep_victims_distinct distinct_entries
        card_mono List.finite_set)
  with len have n: "length ?vs = length d - length ?d" by simp
  have 1: "cleanup_old_ftp_files d keep_count = (?d, Inr (length d - length ?d))"
    using ok n by (simp add: cleanup_old_ftp_files_result [OF assms(1)])
  have 2: "?d = filter (\<lambda>f. f \<in> set ?d) d"
    by (rule filter_cong) auto
  have 3: "\<forall>f \<in> set d. \<not> endswith (file_name f) ''.nc'' \<longrightarrow> f \<in> set ?d"
    using set_mset_mono [OF sweep_victims_subset [of d keep_count]]
    by (auto simp: glob_nc_def)
  have 4: "let g = filter (\<lambda>f. part_key f = K) (glob_nc d);
               g' = filter (\<lambda>f. part_key f = K) (glob_nc ?d)
           in g' = filter (\<lambda>f. f \<in> set (take (nat keep_count) (sort_newest_first g))) g
             \<and> length g' = min (nat keep_count) (length g)
             \<and> (\<forall>a \<in> set g'. \<forall>b \<in> set g - set g'. st_mtime b \<le> st_mtime a)" for K
  proof -
    let ?g = "filter (\<lambda>f. part_key f = K) (glob_nc d)"
    let ?s = "sort_newest_first ?g"
    have dg: "distinct ?g" using assms(1) by (rule distinct_glob_group)
    note kn = keep_newest [OF dg assms(3)]
    define g' where "g' = filter (\<lambda>f. f \<notin> set (slice_from ?s keep_count)) ?g"
    have e1: "g' = filter (\<lambda>f. f \<in> set (take (nat keep_count) ?s)) ?g"
      unfolding g'_def by (rule kn(1))
    have e2: "length g' = min (nat keep_count) (length ?g)"
      unfolding g'_def by (rule kn(2))
    have e3: "\<forall>a \<in> set g'. \<forall>b \<in> set ?g - set g'. st_mtime b \<le> st_mtime a"
    proof (intro ballI)
      fix a b
      assume a: "a \<in> set g'" and b: "b \<in> set ?g - set g'"
      from a have a': "a \<in> set (take (nat keep_count) ?s)"
        by (subst (asm) e1) simp
      from b have b': "b \<in> set (slice_from ?s keep_count)"
        unfolding g'_def by auto
      from a' b' kn(3) show "st_mtime b \<le> st_mtime a" by blast
    qed
    have ga: "filter (\<lambda>f. part_key f = K) (glob_nc ?d) = g'"
      unfolding g'_def by (rule group_after_sweep)
    show ?thesis
      unfolding Let_def ga using e1 e2 e3 by (intro conjI)
  qed
  have small: "length (filter (\<lambda>f. part_key f = K) (glob_nc ?d)) \<le> nat keep_count" for K
    using 4 [of K] unfolding Let_def by (metis min.cobounded1)
  have "sweep_victims ?d keep_count = []"
    using assms(3) small by (rule sweep_victims_small_groups)
  then have 5: "cleanup_old_ftp_files ?d keep_count = (?d, Inr 0)"
    using cleanup_old_ftp_files_result [OF distinct_names_filter [OF assms(1)], of _ keep_count]
    by simp
  have 6: "length ?d \<le> length d" by simp
  have 7: "length d - length ?d = 3"
    if "\<forall>f \<in> set (glob_nc d). part_key f = K" "length (glob_nc d) = 5" "keep_count = 2" for K
  proof -
    have "length (filter (\<lambda>f. part_key f = K) (glob_nc ?d)) =
            min (nat 2) (length (filter (\<lambda>f. part_key f = K) (glob_nc d)))"
      using 4 [of K] that(3) unfolding Let_def by (elim conjE) simp
    with that(1,2) 2 3 show ?thesis by (rule five_files_keep_two)
  qed
  have 8: "\<forall>f p r. file_name f = p @ ''_v'' @ r @ ''.nc'' \<and> \<not> contains p ''_v''
            \<longrightarrow> part_key f = p"
    using part_key_versioned by blast
  have 9: "\<forall>f s. file_name f = s @ ''.nc'' \<and> s \<noteq> [] \<and> \<not> contains s ''_v''
            \<longrightarrow> part_key f = s"
    using part_key_unversioned by blast
  have 10: "\<forall>K. (\<forall>f \<in> set (glob_nc d). part_key f = K) \<and> length (glob_nc d) = 5 \<and> keep_count = 2
            \<longrightarrow> length d - length ?d = 3"
    using 7 by blast
  have all4: "\<forall>K. let g = filter (\<lambda>f. part_key f = K) (glob_nc d);
                g' = filter (\<lambda>f. part_key f = K) (glob_nc ?d)
            in g' = filter (\<lambda>f. f \<in> set (take (nat keep_count) (sort_newest_first g))) g
             \<and> length g' = min (nat keep_count) (length g)
             \<and> (\<forall>a \<in> set g'. \<forall>b \<in> set g - set g'. st_mtime b \<le> st_mtime a)"
    by (intro allI) (rule 4)
  from 1 6 2 3 all4 5 10 8 9 show ?thesis
    by (intro exI [of _ ?d] conjI)
qed

theorem cleanup_old_ftp_files_retention_witness:
  "cleanup_old_ftp_files publish_dir_five 2 = (publish_dir_five_swept, Inr 3) \<and>
   cleanup_old_ftp_files publish_dir_five_swept 2 = (publish_dir_five_swept, Inr 0)"
proof -
  have h1: "distinct (map file_name publish_dir_five)"
    by (simp add: publish_dir_five_def nc_file_def)
  have h2: "\<forall>f \<in> set publish_dir_five. \<not> unlink_denied f"
    by (simp add: publish_dir_five_def nc_file_def)
  have h3: "(0::int) \<le> 2" by simp
  have ev: "cleanup_old_ftp_files publish_dir_five 2 = (publish_dir_five_swept, Inr 3)"
    by (simp add: publish_dir_five_def publish_dir_five_swept_def sweep_defs)
  from cleanup_old_ftp_files_retention [OF h1 h2 h3]
  obtain d' where a: "cleanup_old_ftp_files publish_dir_five 2 =
        (d', Inr (length publish_dir_five - length d'))"
    and b: "cleanup_old_ftp_files d' 2 = (d', Inr 0)"
    by blast
  from a ev have "d' = publish_dir_five_swept" by simp
  with b ev show ?thesis by simp
qed

text \<open>
  C4, as amended. The sweep handles no failure: when the deletion of a stale file fails
  (permission denied), the sweep ends at that file with the error and returns no count.
  The stale files before it in sweep order are gone, the failing file, the stale files
  after it and all other files stay.
\<close>

theorem cleanup_old_ftp_files_unlink_failure:
  assumes "distinct (map file_name d)"
    and "\<exists>v \<in> set (sweep_victims d keep_count). unlink_denied v"
  shows "cleanup_old_ftp_files d keep_count =
           (filter (\<lambda>g. g \<notin> set (takeWhile (\<lambda>v. \<not> unlink_denied v)
                                   (sweep_victims d keep_count))) d,
            Inl PermissionError)"
  using assms(2) by (simp add: cleanup_old_ftp_files_result [OF assms(1)])


theorem cleanup_old_ftp_files_unlink_failure_witness:
  "cleanup_old_ftp_files publish_dir_locked_four 1 =
     ([nc_file ''1001_v1_2025-10-30-1445.nc'' 10,
       locked_file ''1001_v2_2025-10-31-0900.nc'' 20,
       nc_file ''1001_v4_2025-11-02-0900.nc'' 40], Inl PermissionError)"
proof -
  have h1: "distinct (map file_name publish_dir_locked_four)"
    by (simp add: publish_dir_locked_four_def nc_file_def locked_file_def)
  have vs: "sweep_victims publish_dir_locked_four 1 =
      [nc_file ''1001_v3_2025-11-01-0900.nc'' 30,
       locked_file ''1001_v2_2025-10-31-0900.nc'' 20,
       nc_file ''1001_v1_2025-10-30-1445.nc'' 10]"
    by (simp add: sweep_victims_def publish_dir_locked_four_def sweep_defs)
  have h2: "\<exists>v \<in> set (sweep_victims publish_dir_locked_four 1). unlink_denied v"
    by (simp add: vs nc_file_def locked_file_def)
  show ?thesis
    using cleanup_old_ftp_files_unlink_failure [OF h1 h2]
    by (simp add: vs) (simp add: publish_dir_locked_four_def nc_file_def locked_file_def)
qed

text \<open>
  C4 as stated fails: in a directory with three versions of a part and a retention count
  of 1, where the second newest file may not be unlinked, the claim has the sweep go on,
  remove the oldest file and return 1. The code raises at the second newest file: the
  directory is unchanged, the oldest file is still there and no count is returned.
\<close>

theorem cleanup_old_ftp_files_continue_counterexample:
  "cleanup_old_ftp_files publish_dir_locked 1 = (publish_dir_locked, Inl PermissionError) \<and>
   nc_file ''1001_v1_2025-10-30-1445.nc'' 10 \<in> set (fst (cleanup_old_ftp_files publish_dir_locked 1))"
  by (simp add: publish_dir_locked_def sweep_defs)

section \<open>Properties of metadata extraction\<close>

text \<open>
  C7. Extraction returns a record or "no metadata" (\<open>None\<close>), never a partial record.
  Whenever one of the three required fields project, part and posted is absent after
  scanning, the result is \<open>None\<close>. Whenever the value of operations or of tool_count
  is present and not numeric (\<open>int\<close> rejects it, as it does every value with a
  character other than a digit, a sign, an underscore or white space), the result is
  \<open>None\<close>. A record that is returned has every field set: project, part and posted
  time stamp are the scanned values, operations and tool count are the integers read (0
  when absent), machine and setup are the scanned values (\<open>unknown\<close> when absent), the
  program number is the one found, if any.
\<close>

theorem parse_content_record_or_none:
  fixes content :: string
  defines "st \<equiv> scan_content content"
  defines "m \<equiv> md_fields (scan_content content)"
  shows "((\<exists>field \<in> set [''project'', ''part'', ''posted'']. m field = None)
            \<longrightarrow> parse_content content = None)
       \<and> (\<forall>v. (m ''operations'' = Some v \<or> m ''tool_count'' = Some v) \<and> py_int v = None
            \<longrightarrow> parse_content content = None)
       \<and> (\<forall>v. (m ''operations'' = Some v \<or> m ''tool_count'' = Some v)
               \<and> (\<exists>c \<in> set v. \<not> numeric_char c)
            \<longrightarrow> parse_content content = None)
       \<and> (\<forall>r. parse_content content = Some r \<longrightarrow>
              m ''project'' = Some (project r) \<and> m ''part'' = Some (part r) \<and>
              m ''posted'' = Some (posted_timestamp r) \<and>
              int_or_zero m ''operations'' = Some (operations r) \<and>
              int_or_zero m ''tool_count'' = Some (tool_count r) \<and>
              machine r = get_or m ''machine'' ''unknown'' \<and>
              setup_name r = get_or m ''setup'' ''unknown'' \<and>
              program_number r = found_program_number st)"
proof -
  have a: "(\<exists>field \<in> set [''project'', ''part'', ''posted'']. m field = None)
            \<longrightarrow> parse_content content = None"
    by (auto simp: parse_content_def m_def Let_def)
  have b: "parse_content content = None"
    if "m ''operations'' = Some v \<or> m ''tool_count'' = Some v" "py_int v = None" for v
    using that by (auto simp: parse_content_def m_def Let_def int_or_zero_def split: option.splits)
  have c: "parse_content content = None"
    if "m ''operations'' = Some v \<or> m ''tool_count'' = Some v" "\<exists>c \<in> set v. \<not> numeric_char c" for v
  proof -
    from that(2) have "py_int v = None"
      using py_int_chars [of v] by (cases "py_int v") auto
    with that(1) show ?thesis by (rule b)
  qed
  have d: "m ''project'' = Some (project r) \<and> m ''part'' = Some (part r) \<and>
              m ''posted'' = Some (posted_timestamp r) \<and>
              int_or_zero m ''operations'' = Some (operations r) \<and>
              int_or_zero m ''tool_count'' = Some (tool_count r) \<and>
              machine r = get_or m ''machine'' ''unknown'' \<and>
              setup_name r = get_or m ''setup'' ''unknown'' \<and>
              program_number r = found_program_number st"
    if "parse_content content = Some r" for r
    using that
    by (auto simp: parse_content_def m_def st_def Let_def get_or_def split: option.splits if_splits)
  from a b c d show ?thesis by blast
qed

theorem parse_content_record_or_none_witness:
  "parse_content (gcode_header ''(PART: 1001)'' ''(TOOL-COUNT: 5)'') =
     Some \<lparr>project = ''HYDRAULIC MANIFOLD'', part = ''1001'',
           posted_timestamp = ''2025-10-30-1445'', operations = 3, tool_count = 5,
           machine = ''PUMA'', setup_name = ''OP1-ROUGH-FACE'', program_number = Some ''1001''\<rparr>
   \<and> md_fields (scan_content (gcode_header ''(PART: 1001)'' ''(TOOL-COUNT: five)'')) ''tool_count''
       = Some ''five''
   \<and> py_int ''five'' = None
   \<and> parse_content (gcode_header ''(PART: 1001)'' ''(TOOL-COUNT: five)'') = None
   \<and> md_fields (scan_content (gcode_header ''(PART 1001)'' ''(TOOL-COUNT: 5)'')) ''part'' = None
   \<and> parse_content (gcode_header ''(PART 1001)'' ''(TOOL-COUNT: 5)'') = None"
proof -
  have 1: "parse_content (gcode_header ''(PART: 1001)'' ''(TOOL-COUNT: 5)'') =
     Some \<lparr>project = ''HYDRAULIC MANIFOLD'', part = ''1001'',
           posted_timestamp = ''2025-10-30-1445'', operations = 3, tool_count = 5,
           machine = ''PUMA'', setup_name = ''OP1-ROUGH-FACE'', program_number = Some ''1001''\<rparr>"
    by (simp add: parse_defs Let_def)
  have 2: "md_fields (scan_content (gcode_header ''(PART: 1001)'' ''(TOOL-COUNT: five)'')) ''tool_count''
       = Some ''five''"
    by (simp add: parse_defs Let_def)
  have 3: "py_int ''five'' = None"
    by (simp add: parse_defs)
  have 4: "md_fields (scan_content (gcode_header ''(PART 1001)'' ''(TOOL-COUNT: 5)'')) ''part'' = None"
    by (simp add: parse_defs Let_def)
  from parse_content_record_or_none [of "gcode_header ''(PART: 1001)'' ''(TOOL-COUNT: five)''"] 2 3
  have 5: "parse_content (gcode_header ''(PART: 1001)'' ''(TOOL-COUNT: five)'') = None"
    by blast
  from parse_content_record_or_none [of "gcode_header ''(PART 1001)'' ''(TOOL-COUNT: 5)''"] 4
  have 6: "parse_content (gcode_header ''(PART 1001)'' ''(TOOL-COUNT: 5)'') = None"
    by simp
  from 1 2 3 4 5 6 show ?thesis by (intro conjI)
qed


section \<open>Properties of the version store\<close>

text \<open>
  C2. The next version number is the number of archived files of the key plus one. For
  every key and every N: N sequential archival calls for the key, on an archive that has
  no archived file for it, with time stamps that give valid file names, all succeed and
  return the version numbers 1, 2, ..., N in this order. The archived files are then N
  files with distinct names, the i-th of them carrying version number i, so that no two
  share a version number; the next version number is N + 1.
\<close>

theorem archive_versions_sequential:
  assumes "\<forall>(now, src, md) \<in> set calls. project md = P \<and> part md = Q \<and> valid_timestamp md"
    and "glob_nc_files (a (get_part_dir P Q)) = []"
  shows "\<exists>a'. archive_all dt a calls = Inr (a', [1..<length calls + 1])
          \<and> map fst (glob_nc_files (a' (get_part_dir P Q))) =
              map (\<lambda>(i, now, src, md). version_file_name md i) (zip [1..<length calls + 1] calls)
          \<and> distinct (map fst (glob_nc_files (a' (get_part_dir P Q))))
          \<and> get_next_version_number a' P Q = length calls + 1"
proof -
  have e: "[0 + 1..<0 + 1 + length calls] = [1..<length calls + 1]"
    by (simp del: upt_Suc)
  have k0: "length (glob_nc_files (a (get_part_dir P Q))) = 0"
    and s0: "\<forall>name \<in> fst ` set (glob_nc_files (a (get_part_dir P Q))).
        \<exists>i md'. i \<le> 0 \<and> sanitize_filename (part md') = sanitize_filename Q \<and>
                name = version_file_name md' i"
    using assms(2) by simp_all
  from archive_all_from [of calls P Q a 0 dt] assms(1) k0 s0
  obtain a' where "archive_all dt a calls = Inr (a', [0 + 1..<0 + 1 + length calls])"
    and "map fst (glob_nc_files (a' (get_part_dir P Q))) =
              map fst (glob_nc_files (a (get_part_dir P Q))) @
              map (\<lambda>(i, now, src, md). version_file_name md i)
                  (zip [0 + 1..<0 + 1 + length calls] calls)"
    by blast
  then have 1: "archive_all dt a calls = Inr (a', [1..<length calls + 1])"
    and 2: "map fst (glob_nc_files (a' (get_part_dir P Q))) =
              map (\<lambda>(i, now, src, md). version_file_name md i) (zip [1..<length calls + 1] calls)"
    unfolding e using assms(2) by simp_all
  have "\<forall>(now, src, md) \<in> set calls. part md = Q" using assms(1) by auto
  from version_names_distinct [OF this, of 1]
  have 3: "distinct (map fst (glob_nc_files (a' (get_part_dir P Q))))"
    unfolding 2 by (simp add: add.commute del: upt_Suc)
  have "length (map fst (glob_nc_files (a' (get_part_dir P Q)))) = length calls"
    unfolding 2 by (simp del: upt_Suc)
  then have 4: "get_next_version_number a' P Q = length calls + 1"
    by (simp add: get_next_version_number_count)
  from 1 2 3 4 show ?thesis by blast
qed


theorem archive_versions_sequential_witness:
  "\<exists>a'. archive_all example_posted_datetime empty_archive three_archivals = Inr (a', [1, 2, 3])
     \<and> map fst (glob_nc_files (a' [''test-project'', ''1001''])) =
         [''1001_v1_2025-10-30-1445.nc'', ''1001_v2_2025-10-31-0900.nc'',
          ''1001_v3_2025-11-01-0900.nc'']
     \<and> distinct (map fst (glob_nc_files (a' [''test-project'', ''1001''])))
     \<and> get_next_version_number a' ''test-project'' ''1001'' = 4"
proof -
  have h1: "\<forall>(now, src, md) \<in> set three_archivals.
      project md = ''test-project'' \<and> part md = ''1001'' \<and> valid_timestamp md"
    by (simp add: three_archivals_def example_metadata_def valid_timestamp_def)
  have h2: "glob_nc_files (empty_archive (get_part_dir ''test-project'' ''1001'')) = []"
    by (simp add: empty_archive_def glob_nc_files_def)
  have p: "get_part_dir ''test-project'' ''1001'' = [''test-project'', ''1001'']"
    by (simp add: get_part_dir_def get_project_dir_def sanitize_defs)
  have v: "[1..<4] = [1, 2, 3::nat]"
    by (simp add: upt_rec)
  have l: "length three_archivals + 1 = 4"
    by (simp add: three_archivals_def)
  have n: "map (\<lambda>(i, now, src, md). version_file_name md i) (zip [1, 2, 3] three_archivals) =
         [''1001_v1_2025-10-30-1445.nc'', ''1001_v2_2025-10-31-0900.nc'',
          ''1001_v3_2025-11-01-0900.nc'']"
    by (simp add: three_archivals_def example_metadata_def version_file_name_def
        str_nat.simps digit_char_def sanitize_defs)
  from archive_versions_sequential
    [of three_archivals "''test-project''" "''1001''" empty_archive example_posted_datetime,
     OF h1 h2]
  show ?thesis unfolding p v n l .
qed


text \<open>
  C1. The changelog after N archival calls should hold N entries, newest first, every
  earlier entry kept verbatim. The code does not do that from the third call on. The
  second call writes no header and skips three lines of the header it reads (title, blank
  line, project line), so the header is gone; at the third call the first line of the
  changelog is the heading of entry 2, it starts with \<open>#\<close>, and the three lines
  skipped are the heading of entry 2, the blank line and the setup line of entry 2. After
  three calls the changelog has the headings of versions 3 and 1 only.
\<close>

theorem update_changelog_loses_second_entry:
  "changelog_after three_archivals =
     Some (''## Version 3 - 2025-11-01-0900'' @ nl @ nl @
           ''- **Setup:** OP1-TEST'' @ nl @
           ''- **Machine:** PUMA'' @ nl @
           ''- **Operations:** 3'' @ nl @
           ''- **Tools:** 5'' @ nl @
           ''- **Posted:** 2025-11-01 09:00:00'' @ nl @ nl @
           ''- **Machine:** PUMA'' @ nl @
           ''- **Operations:** 3'' @ nl @
           ''- **Tools:** 5'' @ nl @
           ''- **Posted:** 2025-10-31 09:00:00'' @ nl @ nl @ nl @
           ''## Version 1 - 2025-10-30-1445'' @ nl @ nl @
           ''- **Setup:** OP1-TEST'' @ nl @
           ''- **Machine:** PUMA'' @ nl @
           ''- **Operations:** 3'' @ nl @
           ''- **Tools:** 5'' @ nl @
           ''- **Posted:** 2025-10-30 14:45:00'' @ nl @ nl)
   \<and> map_option entry_headings (changelog_after three_archivals) =
       Some [''## Version 3 - 2025-11-01-0900'' @ nl, ''## Version 1 - 2025-10-30-1445'' @ nl]"
  by (simp add: changelog_after_def entry_headings_def archive_defs sanitize_defs Let_def)


end
